theory Spec2Isabelle
  imports Complex_Main
begin

section \<open>Runtime values\<close>

text \<open>
  The formatter of \<^verbatim>\<open>src/formatter/formatter.ts\<close> walks arbitrary JavaScript
  values.  Objects have identity, so a value refers to an object by its address in a
  heap; the formatter never mutates the heap.
\<close>

type_synonym addr = nat

type_synonym CircularId = nat

text \<open>
  Numbers.  A finite double is given by its value, which is a rational number, and by
  the text of \<^verbatim>\<open>String(num)\<close>, which the native conversion computes from it: the
  plain decimal numeral for an integral value of magnitude below \<open>10^21\<close>, the
  shortest decimal that reads back as the double otherwise, with an exponent from
  \<open>10^21\<close> on.  The three remaining doubles are not finite.
\<close>

datatype number = Finite rat string | NaN | PosInfinity | NegInfinity

text \<open>
  One constructor per \<^verbatim>\<open>typeof\<close> result; \<^verbatim>\<open>typeof null\<close> is \<^verbatim>\<open>"object"\<close>.
  A function is represented by its source text (\<^verbatim>\<open>Function.prototype.toString\<close>),
  a symbol by its description.
\<close>

datatype val =
    BigIntV int
  | BooleanV bool
  | FunctionV string
  | NumberV number
  | StringV string
  | SymbolV string
  | Undefined
  | Null
  | Object addr

text \<open>
  What the \<^verbatim>\<open>instanceof\<close> tests of \<^verbatim>\<open>format\<close> see, with the data the built-in
  accessors return: the text \<^verbatim>\<open>String(regex)\<close>; the text of \<^verbatim>\<open>toISOString\<close>, which
  is absent for an invalid date (the accessor throws a RangeError); the pairs a Map
  iterates over; the elements a Set iterates over.
\<close>

datatype internal =
    RegExpSlot string
  | DateSlot "string option"
  | MapSlot "(val \<times> val) list"
  | SetSlot "val list"
  | Ordinary

text \<open>
  The property \<^verbatim>\<open>obj.constructor\<close>: absent (\<^verbatim>\<open>undefined\<close>, as for
  \<^verbatim>\<open>Object.create(null)\<close>), or present with its \<^verbatim>\<open>name\<close>, which is \<open>None\<close> when
  \<^verbatim>\<open>name\<close> is \<^verbatim>\<open>null\<close> or \<^verbatim>\<open>undefined\<close>.
\<close>

datatype ctor = NoConstructor | Constructor "string option"

text \<open>
  An object: \<open>ownKeys\<close> are its own enumerable string-keyed properties in the order of
  \<^verbatim>\<open>Object.keys\<close>; \<open>otherProps\<close> are the properties that are visible to \<^verbatim>\<open>in\<close> and to
  a property read but not enumerable or not its own (the \<^verbatim>\<open>length\<close> of an array);
  \<open>iterator\<close> is present when \<^verbatim>\<open>obj[Symbol.iterator]\<close> is a function and holds the
  values its iteration yields (iterations that never finish or that throw are outside
  the model); \<open>toStringTag\<close> is the tag \<open>T\<close> of
  \<^verbatim>\<open>Object.prototype.toString.call(obj) = "[object T]"\<close>; \<open>entryFields\<close> is present
  when the object is an instance of the class \<^verbatim>\<open>Entry\<close>, which the formatter exports,
  and holds what \<^verbatim>\<open>entry.key\<close>, \<^verbatim>\<open>entry.value\<close> and \<^verbatim>\<open>entry.separator\<close> read, the
  separator being a string as the class declares it.
  Property getters are outside the model.
\<close>

record obj =
  internal :: internal
  constructor :: ctor
  toStringTag :: string
  ownKeys :: "(string \<times> val) list"
  otherProps :: "(string \<times> val) list"
  iterator :: "val list option"
  entryFields :: "(val \<times> val \<times> string) option"

type_synonym heap = "addr \<Rightarrow> obj"

datatype error = TypeError | RangeError

type_synonym 'a result = "error + 'a"

section \<open>Native conversions\<close>

definition digit :: "nat \<Rightarrow> char" where
  "digit n = ''0123456789'' ! n"

text \<open>The decimal numeral of a natural number, and of an integer.\<close>

fun decimal :: "nat \<Rightarrow> string" where
  "decimal n = (if 10 \<le> n then decimal (n div 10) else []) @ [digit (n mod 10)]"

declare decimal.simps [simp del]

definition decimalInt :: "int \<Rightarrow> string" where
  "decimalInt i = (if 0 \<le> i then decimal (nat i) else CHR ''-'' # decimal (nat (- i)))"

text \<open>An integral double of magnitude below \<open>10^21\<close>.\<close>

definition integral :: "int \<Rightarrow> number" where
  "integral i = Finite (of_int i) (decimalInt i)"

text \<open>\<^verbatim>\<open>String(num)\<close>.\<close>

fun string_of_number :: "number \<Rightarrow> string" where
  "string_of_number (Finite q text) = text"
| "string_of_number NaN = ''NaN''"
| "string_of_number PosInfinity = ''Infinity''"
| "string_of_number NegInfinity = ''-Infinity''"

text \<open>\<^verbatim>\<open>str.split(/\n/g)\<close>: the pieces between newlines, at least one piece.\<close>

fun split_newline :: "string \<Rightarrow> string list" where
  "split_newline [] = [] # []"
| "split_newline (c # cs) =
     (if c = CHR ''\<newline>'' then [] # split_newline cs
      else (case split_newline cs of
              [] \<Rightarrow> [c] # []
            | l # ls \<Rightarrow> (c # l) # ls))"

text \<open>\<^verbatim>\<open>lines.join("\n")\<close>.\<close>

fun join_newline :: "string list \<Rightarrow> string" where
  "join_newline [] = []"
| "join_newline [l] = l"
| "join_newline (l # ls) = l @ ''\<newline>'' @ join_newline ls"

text \<open>Property lookup as \<^verbatim>\<open>in\<close> and a property read see it.\<close>

definition getProp :: "obj \<Rightarrow> string \<Rightarrow> val option" where
  "getProp ob k =
     (case map_of (ownKeys ob) k of
        Some v \<Rightarrow> Some v
      | None \<Rightarrow> map_of (otherProps ob) k)"

text \<open>
  \<^verbatim>\<open>arr[i]\<close> for a counter \<open>i\<close> of a loop, whose property key is its decimal numeral:
  an absent property reads \<^verbatim>\<open>undefined\<close>.
\<close>

definition getIndex :: "obj \<Rightarrow> nat \<Rightarrow> val" where
  "getIndex ob i = (case getProp ob (decimal i) of Some v \<Rightarrow> v | None \<Rightarrow> Undefined)"

text \<open>
  The index a property key stands for, if it is the decimal numeral of one; and the
  least number above all indices at which the object has a property, so that
  \<^verbatim>\<open>arr[i]\<close> is \<^verbatim>\<open>undefined\<close> from there on.
\<close>

definition digitValue :: "char \<Rightarrow> nat option" where
  "digitValue c = (if c \<in> set ''0123456789'' then Some (of_char c - 48) else None)"

definition numeralValue :: "string \<Rightarrow> nat option" where
  "numeralValue s =
     fold (\<lambda>c acc. case (acc, digitValue c) of
                      (Some n, Some d) \<Rightarrow> Some (10 * n + d)
                    | _ \<Rightarrow> None)
       s (Some 0)"

definition indexOfKey :: "string \<Rightarrow> nat option" where
  "indexOfKey k =
     (case numeralValue k of
        Some n \<Rightarrow> if decimal n = k then Some n else None
      | None \<Rightarrow> None)"

definition indexBound :: "obj \<Rightarrow> nat" where
  "indexBound ob =
     fold max
       (map (\<lambda>(k, v). case indexOfKey k of Some n \<Rightarrow> Suc n | None \<Rightarrow> 0)
          (ownKeys ob @ otherProps ob))
       0"

section \<open>\<^verbatim>\<open>src/utils.ts\<close>\<close>

definition toString_call :: "obj \<Rightarrow> string" where
  "toString_call ob = ''[object '' @ toStringTag ob @ '']''"

definition isWhitespace :: "char \<Rightarrow> bool" where
  "isWhitespace c \<longleftrightarrow> c \<in> set [CHR '' '', CHR 0x09, CHR 0x0A, CHR 0x0B, CHR 0x0C, CHR 0x0D]"

text \<open>\<^verbatim>\<open>s.replace(/^\[object\s|\]$/g, "")\<close>\<close>

definition stripObjectTag :: "string \<Rightarrow> string" where
  "stripObjectTag s =
     (let s1 = (if take 7 s = ''[object'' \<and> 7 < length s \<and> isWhitespace (s ! 7)
                then drop 8 s else s)
      in if s1 \<noteq> [] \<and> last s1 = CHR '']'' then butlast s1 else s1)"

text \<open>
  \<^verbatim>\<open>obj.constructor.name ?? toString.call(obj).replace(...)\<close>: reading \<^verbatim>\<open>name\<close> of
  an absent constructor throws a TypeError; the right operand of \<^verbatim>\<open>??\<close> is used only
  when the constructor is present and its name is nullish.
\<close>

definition getConstructorName :: "obj \<Rightarrow> string result" where
  "getConstructorName ob =
     (case constructor ob of
        NoConstructor \<Rightarrow> Inl TypeError
      | Constructor (Some name) \<Rightarrow> Inr name
      | Constructor None \<Rightarrow> Inr (stripObjectTag (toString_call ob)))"

section \<open>\<^verbatim>\<open>src/formatter/circular_id_generator.ts\<close>\<close>

record CircularIdGenerator =
  currentId :: CircularId
  generatedIds :: "addr \<rightharpoonup> CircularId"

definition newCircularIdGenerator :: CircularIdGenerator where
  "newCircularIdGenerator = \<lparr> currentId = 1, generatedIds = Map.empty \<rparr>"

definition generateId :: "addr \<Rightarrow> CircularIdGenerator \<Rightarrow> CircularId \<times> CircularIdGenerator" where
  "generateId a g =
     (case generatedIds g a of
        Some generatedId \<Rightarrow> (generatedId, g)
      | None \<Rightarrow>
          (currentId g,
           g\<lparr> generatedIds := (generatedIds g)(a \<mapsto> currentId g),
              currentId := currentId g + 1 \<rparr>))"

section \<open>\<^verbatim>\<open>src/formatter/formatter.ts\<close>: the engine\<close>

text \<open>
  The options, all present.  The indentation width and the maximal depth are natural
  numbers, as the configuration is specified (an integer at least 0 and an integer at
  least 1); other numbers are outside the model.
\<close>

record FormatterOptions =
  indent :: nat
  depth :: nat
  indentRoot :: bool
  escapeString :: bool
  circularId :: bool

text \<open>The options argument of the constructor: every field may be left out.\<close>

record OptionsArg =
  indentArg :: "nat option"
  depthArg :: "nat option"
  indentRootArg :: "bool option"
  escapeStringArg :: "bool option"
  circularIdArg :: "bool option"

definition defaultFormatterOptions :: FormatterOptions where
  "defaultFormatterOptions =
     \<lparr> indent = 2, depth = 20, indentRoot = False, escapeString = False, circularId = False \<rparr>"

text \<open>\<^verbatim>\<open>{ ...defaultFormatterOptions, ...options }\<close>\<close>

definition mergeOptions :: "FormatterOptions \<Rightarrow> OptionsArg \<Rightarrow> FormatterOptions" where
  "mergeOptions d arg =
     \<lparr> indent = (case indentArg arg of Some x \<Rightarrow> x | None \<Rightarrow> indent d),
       depth = (case depthArg arg of Some x \<Rightarrow> x | None \<Rightarrow> depth d),
       indentRoot = (case indentRootArg arg of Some x \<Rightarrow> x | None \<Rightarrow> indentRoot d),
       escapeString = (case escapeStringArg arg of Some x \<Rightarrow> x | None \<Rightarrow> escapeString d),
       circularId = (case circularIdArg arg of Some x \<Rightarrow> x | None \<Rightarrow> circularId d) \<rparr>"

definition noOptions :: OptionsArg where
  "noOptions =
     \<lparr> indentArg = None, depthArg = None, indentRootArg = None, escapeStringArg = None,
       circularIdArg = None \<rparr>"

definition allOptions :: "FormatterOptions \<Rightarrow> OptionsArg" where
  "allOptions opts =
     \<lparr> indentArg = Some (indent opts), depthArg = Some (depth opts),
       indentRootArg = Some (indentRoot opts), escapeStringArg = Some (escapeString opts),
       circularIdArg = Some (circularId opts) \<rparr>"

text \<open>
  The fields of a \<^verbatim>\<open>Formatter\<close> that are plain data.  Its two remaining fields,
  \<^verbatim>\<open>_seen\<close> and \<^verbatim>\<open>_circularIdGenerator\<close>, are references to mutable objects; they
  live in the \<open>state\<close> below.
\<close>

record Formatter =
  options :: FormatterOptions
  initialIndent :: nat
  skipFirstLineIdentation :: bool
  currentDepth :: nat

text \<open>
  The mutable objects an engine refers to: the WeakMap \<^verbatim>\<open>_seen\<close> and the generator.
  The constructor allocates both when its last two parameters are left out, and
  \<^verbatim>\<open>_getChildFormatter\<close> passes the parent's references on, so an engine and all
  engines derived from it work on one \<open>state\<close>, which is threaded through the calls.

  \<open>circularLog\<close> is a ghost field, absent from the source: it records, in call order,
  the objects for which \<^verbatim>\<open>formatCircularRef\<close> was called from
  \<^verbatim>\<open>_formatObjectEntries\<close>.  Nothing reads it.
\<close>

record state =
  seen :: "addr \<rightharpoonup> CircularId"
  circularIdGenerator :: CircularIdGenerator
  circularLog :: "addr list"

text \<open>The state a constructor call with defaulted last parameters allocates.\<close>

definition newState :: state where
  "newState =
     \<lparr> seen = Map.empty, circularIdGenerator = newCircularIdGenerator, circularLog = [] \<rparr>"

text \<open>
  How a call of a method of the engine ends: it throws, or it returns a string; either
  way it leaves the mutable objects in some state.
\<close>

type_synonym outcome = "(error \<times> state) + (string \<times> state)"

text \<open>
  The constructor, without the two reference parameters:
  \<^verbatim>\<open>this._initialIndent = this._initialIndent ?? this.options.indent\<close>.
\<close>

definition newFormatter :: "OptionsArg \<Rightarrow> nat option \<Rightarrow> bool \<Rightarrow> nat \<Rightarrow> Formatter" where
  "newFormatter arg initIndent skipFirst curDepth =
     (let opts = mergeOptions defaultFormatterOptions arg
      in \<lparr> options = opts,
           initialIndent = (case initIndent of Some i \<Rightarrow> i | None \<Rightarrow> indent opts),
           skipFirstLineIdentation = skipFirst,
           currentDepth = curDepth \<rparr>)"

text \<open>\<^verbatim>\<open>new Formatter(options)\<close>\<close>

definition Formatter_new :: "OptionsArg \<Rightarrow> Formatter" where
  "Formatter_new arg = newFormatter arg None False 1"

definition hitMaxDepth :: "Formatter \<Rightarrow> bool" where
  "hitMaxDepth fm \<longleftrightarrow> currentDepth fm \<ge> depth (options fm)"

definition getChildFormatter :: "Formatter \<Rightarrow> bool \<Rightarrow> Formatter" where
  "getChildFormatter fm skipFirst =
     newFormatter
       (allOptions ((options fm)
          \<lparr> indent := indent (options fm) + (if indentRoot (options fm) then initialIndent fm else 0),
            indentRoot := True \<rparr>))
       (Some (initialIndent fm))
       skipFirst
       (currentDepth fm + 1)"

definition formatWithIndent :: "string \<Rightarrow> nat \<Rightarrow> string" where
  "formatWithIndent content ind = replicate ind CHR '' '' @ content"

definition formatFirstLine :: "Formatter \<Rightarrow> string \<Rightarrow> string" where
  "formatFirstLine fm content =
     (if skipFirstLineIdentation fm \<or> \<not> indentRoot (options fm) then content
      else formatWithIndent content (indent (options fm)))"

definition wrap :: "string \<times> string \<Rightarrow> string \<Rightarrow> string" where
  "wrap wrapper content = fst wrapper @ content @ snd wrapper"

subsection \<open>Scalars\<close>

definition formatBigInt :: "Formatter \<Rightarrow> int \<Rightarrow> string" where
  "formatBigInt fm bigint = formatFirstLine fm (decimalInt bigint @ ''n'')"

definition formatBoolean :: "Formatter \<Rightarrow> bool \<Rightarrow> string" where
  "formatBoolean fm bool = formatFirstLine fm (if bool then ''true'' else ''false'')"

definition formatNumber :: "Formatter \<Rightarrow> number \<Rightarrow> string" where
  "formatNumber fm num = formatFirstLine fm (string_of_number num)"

definition formatNull :: "Formatter \<Rightarrow> string" where
  "formatNull fm = formatFirstLine fm ''null''"

definition formatUndefined :: "Formatter \<Rightarrow> string" where
  "formatUndefined fm = formatFirstLine fm ''undefined''"

text \<open>\<^verbatim>\<open>String(sym)\<close> is \<^verbatim>\<open>Symbol(description)\<close>.\<close>

definition formatSymbol :: "Formatter \<Rightarrow> string \<Rightarrow> string" where
  "formatSymbol fm description = formatFirstLine fm (''Symbol('' @ description @ '')'')"

definition formatRegExp :: "Formatter \<Rightarrow> string \<Rightarrow> string" where
  "formatRegExp fm regex = formatFirstLine fm regex"

text \<open>
  The template evaluates \<^verbatim>\<open>getConstructorName(date)\<close> before
  \<^verbatim>\<open>toISOString.call(date)\<close>.
\<close>

definition formatDate :: "Formatter \<Rightarrow> obj \<Rightarrow> string option \<Rightarrow> string result" where
  "formatDate fm ob isoString =
     (case getConstructorName ob of
        Inl e \<Rightarrow> Inl e
      | Inr name \<Rightarrow>
          (case isoString of
             None \<Rightarrow> Inl RangeError
           | Some text \<Rightarrow> Inr (formatFirstLine fm (name @ '' { '' @ text @ '' }''))))"

subsection \<open>Strings\<close>

definition escapeChars :: "(char \<times> char) list" where
  "escapeChars = [(CHR ''\<newline>'', CHR ''n''), (CHR 0x09, CHR ''t'')]"

text \<open>
  \<^verbatim>\<open>escapeReplacerFn\<close>: a backslash and the entry of \<^verbatim>\<open>escapeChars\<close> for its
  argument (the text \<^verbatim>\<open>undefined\<close> where there is none).
\<close>

definition escapeReplacerFn :: "char \<Rightarrow> string" where
  "escapeReplacerFn e =
     CHR 0x5C # (case map_of escapeChars e of Some c \<Rightarrow> [c] | None \<Rightarrow> ''undefined'')"

text \<open>
  \<^verbatim>\<open>ESCAPE_REGEX\<close> is built from the keys of \<^verbatim>\<open>escapeChars\<close>, each turned into its
  escape sequence, joined by \<^verbatim>\<open>|\<close>: it matches a single character that is one of the
  keys.
\<close>

definition matchesEscapeRegex :: "char \<Rightarrow> bool" where
  "matchesEscapeRegex c \<longleftrightarrow> c \<in> set (map fst escapeChars)"

text \<open>\<^verbatim>\<open>str.replace(ESCAPE_REGEX, escapeReplacerFn)\<close>, the regular expression being global.\<close>

definition escapeAll :: "string \<Rightarrow> string" where
  "escapeAll str = concat (map (\<lambda>c. if matchesEscapeRegex c then escapeReplacerFn c else [c]) str)"

definition formatString :: "Formatter \<Rightarrow> string \<Rightarrow> string" where
  "formatString fm str =
     (if escapeString (options fm) then
        formatFirstLine fm (wrap ([CHR 0x22], [CHR 0x22]) (escapeAll str))
      else
        (let lines = split_newline str in
         if length lines = 1 then formatFirstLine fm (wrap ([CHR 0x22], [CHR 0x22]) str)
         else
           formatFirstLine fm
             (wrap ([CHR 0x60], [CHR 0x60])
                (join_newline
                   (hd lines #
                    map (\<lambda>l. formatWithIndent l (indent (options fm))) (tl lines))))))"

subsection \<open>Functions\<close>

definition DENO_FN_FORMAT_INDENTATION_SIZE :: nat where
  "DENO_FN_FORMAT_INDENTATION_SIZE = 4"

definition leadingSpaces :: "string \<Rightarrow> nat" where
  "leadingSpaces s = length (takeWhile (\<lambda>c. c = CHR '' '') s)"

text \<open>
  The last line loses its leading spaces (\<^verbatim>\<open>/^ +/\<close>) for the current indentation and
  their number is \<open>extraIndentationCount\<close>; an inner line with at least that many
  leading spaces (\<^verbatim>\<open>/^ {n,}/\<close>) gets them replaced.  \<^verbatim>\<open>" ".repeat\<close> truncates its
  argument, hence the integer division.
\<close>

definition formatFunction :: "Formatter \<Rightarrow> string \<Rightarrow> string" where
  "formatFunction fm fnStr =
     (let fnLines = split_newline fnStr;
          len = length fnLines
      in if len = 1 then fnStr
         else
           (let lastLineIndex = len - 1;
                firstLine = formatFirstLine fm (fnLines ! 0);
                lastLine = fnLines ! lastLineIndex;
                extraIndentationCount = leadingSpaces lastLine;
                lastLine' =
                  (if 0 < extraIndentationCount
                   then formatWithIndent (drop extraIndentationCount lastLine)
                          (indent (options fm))
                   else lastLine);
                inner =
                  (if 2 < len then
                     map (\<lambda>l.
                            let n = leadingSpaces l in
                            if extraIndentationCount \<le> n then
                              formatWithIndent (drop n l)
                                (indent (options fm) +
                                 initialIndent fm * (n - extraIndentationCount)
                                   div DENO_FN_FORMAT_INDENTATION_SIZE)
                            else l)
                         (take (lastLineIndex - 1) (drop 1 fnLines))
                   else [])
            in join_newline (firstLine # inner @ [lastLine'])))"

subsection \<open>Composite values\<close>

text \<open>
  \<^verbatim>\<open>formatCircularRef\<close>; \<^verbatim>\<open>this._seen.get(obj) ?? "unknown"\<close>.
\<close>

definition formatCircularRef :: "Formatter \<Rightarrow> state \<Rightarrow> addr \<Rightarrow> string" where
  "formatCircularRef fm st a =
     formatFirstLine fm
       (wrap (''['', '']'')
          (''Circular'' @
           (if circularId (options fm)
            then ''#'' @ (case seen st a of Some i \<Rightarrow> decimal i | None \<Rightarrow> ''unknown'')
            else [])))"

text \<open>
  What a content generator yields: a value, or an instance of the class \<^verbatim>\<open>Entry\<close>
  that the generator has made, with key, value and separator.
\<close>

datatype item = Value val | Entry val val string

text \<open>
  \<^verbatim>\<open>entry instanceof Entry\<close>, the test the loop of \<^verbatim>\<open>_formatObjectEntries\<close> makes on
  what was yielded: it holds for the entries the generators make, and for a yielded value
  that is an object of the heap and an instance of \<^verbatim>\<open>Entry\<close>, whose fields the loop
  then reads.  The result is the item as the loop treats it.
\<close>

fun instanceofEntry :: "heap \<Rightarrow> item \<Rightarrow> item" where
  "instanceofEntry h (Value (Object b)) =
     (case entryFields (h b) of
        Some (key, value, separator) \<Rightarrow> Entry key value separator
      | None \<Rightarrow> Value (Object b))"
| "instanceofEntry h it = it"

text \<open>
  The whole run of a content generator: the items it yields before it is done, or, when
  it is never done, the items it yields first, after which it yields \<^verbatim>\<open>undefined\<close>
  without end.
\<close>

datatype contents = Yields "item list" | Endless "item list"

fun yielded :: "contents \<Rightarrow> item list" where
  "yielded (Yields items) = items"
| "yielded (Endless items) = items"

text \<open>
  How often \<^verbatim>\<open>for (let i = 0; i < length; i++)\<close> runs its body: for the counters
  \<open>0, 1, 2, \<dots>\<close> below the length, which need not be integral; never-ending for
  \<^verbatim>\<open>Infinity\<close>, and no iteration for \<^verbatim>\<open>NaN\<close>, whose comparisons are false.
  The counter is exact in the model, as strings are unbounded: in the source it is a
  double, which \<^verbatim>\<open>i++\<close> does not change any more at \<open>2\<^sup>5\<^sup>3\<close>, a count of lines that
  no string holds.
\<close>

fun iterations :: "number \<Rightarrow> nat option" where
  "iterations (Finite q text) = Some (nat \<lceil>q\<rceil>)"
| "iterations NaN = Some 0"
| "iterations PosInfinity = None"
| "iterations NegInfinity = Some 0"

text \<open>
  The generator of \<^verbatim>\<open>formatArray\<close>.  For the length \<^verbatim>\<open>Infinity\<close> it is never done:
  it yields the values up to the last index that holds a property, and then
  \<^verbatim>\<open>undefined\<close> for every further index.
\<close>

definition arrayContents :: "obj \<Rightarrow> number \<Rightarrow> contents" where
  "arrayContents arr len =
     (case iterations len of
        None \<Rightarrow> Endless (map (\<lambda>i. Value (getIndex arr i)) [0..<indexBound arr])
      | Some n \<Rightarrow> Yields (map (\<lambda>i. Value (getIndex arr i)) [0..<n]))"

text \<open>The generator of \<^verbatim>\<open>formatMap\<close>.\<close>

definition mapContents :: "(val \<times> val) list \<Rightarrow> contents" where
  "mapContents kvs = Yields (map (\<lambda>(key, value). Entry key value '' => '') kvs)"

text \<open>The generator of \<^verbatim>\<open>formatSet\<close>, and the iterator \<^verbatim>\<open>formatIterable\<close> passes.\<close>

definition valueContents :: "val list \<Rightarrow> contents" where
  "valueContents vs = Yields (map Value vs)"

text \<open>The generator of \<^verbatim>\<open>formatObject\<close>.\<close>

definition objectContents :: "obj \<Rightarrow> contents" where
  "objectContents ob = Yields (map (\<lambda>(key, value). Entry (StringV key) value '': '') (ownKeys ob))"

text \<open>\<^verbatim>\<open>"length" in value && typeof value.length === "number"\<close>\<close>

definition numericLength :: "obj \<Rightarrow> number option" where
  "numericLength ob =
     (case getProp ob ''length'' of
        Some (NumberV n) \<Rightarrow> Some n
      | _ \<Rightarrow> None)"

text \<open>
  The engine proper.  \<^verbatim>\<open>format\<close> dispatches on \<^verbatim>\<open>typeof value\<close> and, for objects,
  on the chain of tests in the source's order; the five composite branches call
  \<^verbatim>\<open>_formatObjectEntries\<close> with their wrapper and generator; \<open>formatItems\<close> is the
  \<^verbatim>\<open>while\<close> loop of \<^verbatim>\<open>_formatObjectEntries\<close>, with \<open>content\<close> its accumulator.
  A method for a composite category takes the address of the object and what the
  type of its parameter promises: the pairs of the Map, the elements of the Set, the
  number that is the \<^verbatim>\<open>length\<close> of the array-like, the values the iterable yields.

  A thrown exception is an \<open>Inl\<close> result, with the state at the time of the throw: no
  method catches, so the exception ends every enclosing call as well, and
  \<^verbatim>\<open>this._seen.delete(obj)\<close> is not reached for the objects that were being expanded.

  Strings are unbounded in the model: the engine's limit on the length of a string is
  not modelled, with one exception.  The loop over a generator that is never done
  appends a line to \<open>content\<close> for every item, so when no item makes a nested call
  throw, it ends when \<open>content\<close> exceeds every length: with the RangeError of an
  invalid string length, thrown in the state the items yielded first have led to, the
  lines of \<^verbatim>\<open>undefined\<close> changing nothing.

  Every nested call is made by a child engine, one level deeper, and an engine at the
  maximal depth does not descend: the recursion is bounded by the distance to the
  maximal depth, whatever the heap looks like.
\<close>

definition remainingDepth :: "Formatter \<Rightarrow> nat" where
  "remainingDepth fm = depth (options fm) - currentDepth fm"

function
  format :: "heap \<Rightarrow> Formatter \<Rightarrow> val \<Rightarrow> state \<Rightarrow> outcome"
and formatArray :: "heap \<Rightarrow> Formatter \<Rightarrow> addr \<Rightarrow> number \<Rightarrow> state \<Rightarrow> outcome"
and formatIterable :: "heap \<Rightarrow> Formatter \<Rightarrow> addr \<Rightarrow> val list \<Rightarrow> state \<Rightarrow> outcome"
and formatMap :: "heap \<Rightarrow> Formatter \<Rightarrow> addr \<Rightarrow> (val \<times> val) list \<Rightarrow> state \<Rightarrow> outcome"
and formatObject :: "heap \<Rightarrow> Formatter \<Rightarrow> addr \<Rightarrow> state \<Rightarrow> outcome"
and formatSet :: "heap \<Rightarrow> Formatter \<Rightarrow> addr \<Rightarrow> val list \<Rightarrow> state \<Rightarrow> outcome"
and formatObjectEntries ::
    "heap \<Rightarrow> Formatter \<Rightarrow> addr \<Rightarrow> string \<times> string \<Rightarrow> contents \<Rightarrow> state \<Rightarrow> outcome"
and formatItems ::
    "heap \<Rightarrow> Formatter \<Rightarrow> item list \<Rightarrow> string \<Rightarrow> state \<Rightarrow> outcome"
where
  "format h fm (BigIntV i) st = Inr (formatBigInt fm i, st)"
| "format h fm (BooleanV b) st = Inr (formatBoolean fm b, st)"
| "format h fm (FunctionV src) st = Inr (formatFunction fm src, st)"
| "format h fm (NumberV n) st = Inr (formatNumber fm n, st)"
| "format h fm (StringV s) st = Inr (formatString fm s, st)"
| "format h fm (SymbolV d) st = Inr (formatSymbol fm d, st)"
| "format h fm Undefined st = Inr (formatUndefined fm, st)"
| "format h fm Null st = Inr (formatNull fm, st)"
| "format h fm (Object a) st =
     (case internal (h a) of
        RegExpSlot regex \<Rightarrow> Inr (formatRegExp fm regex, st)
      | DateSlot isoString \<Rightarrow>
          (case formatDate fm (h a) isoString of
             Inl e \<Rightarrow> Inl (e, st)
           | Inr s \<Rightarrow> Inr (s, st))
      | MapSlot kvs \<Rightarrow> formatMap h fm a kvs st
      | SetSlot vs \<Rightarrow> formatSet h fm a vs st
      | Ordinary \<Rightarrow>
          (case numericLength (h a) of
             Some len \<Rightarrow> formatArray h fm a len st
           | None \<Rightarrow>
               (case iterator (h a) of
                  Some vs \<Rightarrow> formatIterable h fm a vs st
                | None \<Rightarrow> formatObject h fm a st)))"
| "formatArray h fm a len st =
     formatObjectEntries h fm a (''['', '']'') (arrayContents (h a) len) st"
| "formatIterable h fm a vs st =
     formatObjectEntries h fm a (''{'', ''}'') (valueContents vs) st"
| "formatMap h fm a kvs st =
     formatObjectEntries h fm a (''{'', ''}'') (mapContents kvs) st"
| "formatObject h fm a st =
     formatObjectEntries h fm a (''{'', ''}'') (objectContents (h a)) st"
| "formatSet h fm a vs st =
     formatObjectEntries h fm a (''{'', ''}'') (valueContents vs) st"
| "formatObjectEntries h fm a wrapper contentFormatter st =
     (if seen st a \<noteq> None then
        Inr (formatCircularRef fm st a, st\<lparr> circularLog := circularLog st @ [a] \<rparr>)
      else
        (case getConstructorName (h a) of
           Inl e \<Rightarrow> Inl (e, st)
         | Inr constructorName \<Rightarrow>
             if hitMaxDepth fm then
               Inr (formatWithIndent (wrap (''['', '']'') constructorName) (indent (options fm)), st)
             else
               (case generateId a (circularIdGenerator st) of
                  (seenId, g) \<Rightarrow>
                    (case formatItems h fm (yielded contentFormatter) []
                            (st\<lparr> circularIdGenerator := g,
                                 seen := (seen st)(a \<mapsto> seenId) \<rparr>) of
                       Inl thrown \<Rightarrow> Inl thrown
                     | Inr (content, st') \<Rightarrow>
                         (case contentFormatter of
                            Endless _ \<Rightarrow> Inl (RangeError, st')
                          | Yields _ \<Rightarrow>
                              Inr (formatFirstLine fm
                                     (constructorName @
                                      (if circularId (options fm)
                                       then ''#'' @ decimal seenId else []) @
                                      '' '' @
                                      wrap (fst wrapper,
                                            if indentRoot (options fm)
                                            then formatWithIndent (snd wrapper) (indent (options fm))
                                            else snd wrapper)
                                        (''\<newline>'' @ content)),
                                   st'\<lparr> seen := (seen st')(a := None) \<rparr>))))))"
| "formatItems h fm [] content st = Inr (content, st)"
| "formatItems h fm (entry # items) content st =
     (case instanceofEntry h entry of
        Value v \<Rightarrow>
          (case format h (getChildFormatter fm False) v st of
             Inl thrown \<Rightarrow> Inl thrown
           | Inr (s, st') \<Rightarrow> formatItems h fm items (content @ s @ '',\<newline>'') st')
      | Entry key value separator \<Rightarrow>
          (case format h (getChildFormatter fm False) key st of
             Inl thrown \<Rightarrow> Inl thrown
           | Inr (k, st1) \<Rightarrow>
               (case format h (getChildFormatter fm True) value st1 of
                  Inl thrown \<Rightarrow> Inl thrown
                | Inr (v, st2) \<Rightarrow>
                    formatItems h fm items
                      (content @ wrap (k, v @ '',\<newline>'') separator) st2)))"
  by pat_completeness auto

termination
  apply (relation "inv_image (less_than <*lex*> less_than)
     (case_sum
       (case_sum
         (case_sum (\<lambda>(h, fm, v, st). (remainingDepth fm, 2))
                   (\<lambda>(h, fm, a, len, st). (remainingDepth fm, 1)))
         (case_sum (\<lambda>(h, fm, a, vs, st). (remainingDepth fm, 1))
                   (\<lambda>(h, fm, a, kvs, st). (remainingDepth fm, 1))))
       (case_sum
         (case_sum (\<lambda>(h, fm, a, st). (remainingDepth fm, 1))
                   (\<lambda>(h, fm, a, vs, st). (remainingDepth fm, 1)))
         (case_sum (\<lambda>(h, fm, a, wrapper, c, st). (remainingDepth fm, 0))
                   (\<lambda>(h, fm, items, content, st). (remainingDepth fm - 1, 2 + length items)))))")
  apply (intro wf_inv_image wf_lex_prod wf_less_than)
  apply (simp_all add: remainingDepth_def hitMaxDepth_def getChildFormatter_def newFormatter_def
            mergeOptions_def allOptions_def)
  done

text \<open>What a call has returned or thrown, without the state; and the state it has left.\<close>

definition returned :: "outcome \<Rightarrow> string result" where
  "returned r = (case r of Inl (e, st) \<Rightarrow> Inl e | Inr (s, st) \<Rightarrow> Inr s)"

definition stateAfter :: "outcome \<Rightarrow> state" where
  "stateAfter r = (case r of Inl (e, st) \<Rightarrow> st | Inr (s, st) \<Rightarrow> st)"



section \<open>Notions the properties are stated with\<close>

datatype jstype =
  TBigint | TBoolean | TFunction | TNumber | TString | TSymbol | TUndefined | TObject

text \<open>\<^verbatim>\<open>typeof value\<close>\<close>

fun typeof :: "val \<Rightarrow> jstype" where
  "typeof (BigIntV _) = TBigint"
| "typeof (BooleanV _) = TBoolean"
| "typeof (FunctionV _) = TFunction"
| "typeof (NumberV _) = TNumber"
| "typeof (StringV _) = TString"
| "typeof (SymbolV _) = TSymbol"
| "typeof Undefined = TUndefined"
| "typeof Null = TObject"
| "typeof (Object _) = TObject"

text \<open>
  The wrapper and the generator with which \<^verbatim>\<open>format\<close> reaches
  \<^verbatim>\<open>_formatObjectEntries\<close> for an object; none for a regular expression and for a
  date, which are rendered on one line.
\<close>

definition compositeOf :: "obj \<Rightarrow> ((string \<times> string) \<times> contents) option" where
  "compositeOf ob =
     (case internal ob of
        RegExpSlot _ \<Rightarrow> None
      | DateSlot _ \<Rightarrow> None
      | MapSlot kvs \<Rightarrow> Some ((''{'', ''}''), mapContents kvs)
      | SetSlot vs \<Rightarrow> Some ((''{'', ''}''), valueContents vs)
      | Ordinary \<Rightarrow>
          (case numericLength ob of
             Some len \<Rightarrow> Some ((''['', '']''), arrayContents ob len)
           | None \<Rightarrow>
               (case iterator ob of
                  Some vs \<Rightarrow> Some ((''{'', ''}''), valueContents vs)
                | None \<Rightarrow> Some ((''{'', ''}''), objectContents ob))))"







definition mapPairs :: "obj \<Rightarrow> (val \<times> val) list" where
  "mapPairs ob = (case internal ob of MapSlot kvs \<Rightarrow> kvs | _ \<Rightarrow> [])"

definition setElements :: "obj \<Rightarrow> val list" where
  "setElements ob = (case internal ob of SetSlot vs \<Rightarrow> vs | _ \<Rightarrow> [])"

definition lengthValue :: "obj \<Rightarrow> number" where
  "lengthValue ob = (case numericLength ob of Some len \<Rightarrow> len | None \<Rightarrow> NaN)"

definition iteratedValues :: "obj \<Rightarrow> val list" where
  "iteratedValues ob = (case iterator ob of Some vs \<Rightarrow> vs | None \<Rightarrow> [])"


text \<open>
  The entries of a composite value, read off the object by its category and not through
  the generators of the source: the pairs of a Map, the elements of a Set, the values at
  the counters of the loop below the length of an array-like (up to the last index that
  holds a property when the length is \<^verbatim>\<open>Infinity\<close>), the values an iterable yields,
  the own enumerable properties of a record; none for a regular expression and for a
  date.  An element that is an instance of \<^verbatim>\<open>Entry\<close> counts as the entry it holds.
\<close>

fun element :: "heap \<Rightarrow> val \<Rightarrow> item" where
  "element h (Object b) =
     (case entryFields (h b) of
        None \<Rightarrow> Value (Object b)
      | Some (key, value, separator) \<Rightarrow> Entry key value separator)"
| "element h v = Value v"

definition indexCount :: "obj \<Rightarrow> nat" where
  "indexCount ob =
     (case lengthValue ob of
        Finite q text \<Rightarrow> nat \<lceil>q\<rceil>
      | PosInfinity \<Rightarrow> indexBound ob
      | _ \<Rightarrow> 0)"

definition entries :: "heap \<Rightarrow> obj \<Rightarrow> item list" where
  "entries h ob =
     (if internal ob \<noteq> Ordinary then
        map (\<lambda>(key, value). Entry key value '' => '') (mapPairs ob) @
        map (element h) (setElements ob)
      else if numericLength ob \<noteq> None then
        map (\<lambda>i. element h (getIndex ob i)) [0..<indexCount ob]
      else if iterator ob \<noteq> None then map (element h) (iteratedValues ob)
      else map (\<lambda>(key, value). Entry (StringV key) value '': '') (ownKeys ob))"

text \<open>The bracket pair of a composite value: square for an array-like, curly otherwise.\<close>

definition brackets :: "obj \<Rightarrow> string \<times> string" where
  "brackets ob =
     (if internal ob = Ordinary \<and> numericLength ob \<noteq> None then (''['', '']'') else (''{'', ''}''))"

fun itemVals :: "item \<Rightarrow> val list" where
  "itemVals (Value v) = [v]"
| "itemVals (Entry key value separator) = [key, value]"

text \<open>
  The values nested directly in an object, which the formatter is to show: the keys and
  values of its entries.
\<close>

definition children :: "heap \<Rightarrow> obj \<Rightarrow> val list" where
  "children h ob = concat (map itemVals (entries h ob))"

text \<open>The object has finitely many entries: it is not an array-like of infinite length.\<close>

definition finiteContents :: "obj \<Rightarrow> bool" where
  "finiteContents ob \<longleftrightarrow> \<not> (internal ob = Ordinary \<and> numericLength ob = Some PosInfinity)"

text \<open>
  Finite acyclic values, as the least set closed under nesting: a value that contains
  itself, directly or through other objects, has no finite derivation.  A value may
  occur any number of times in another.
\<close>

inductive acyclicValue :: "heap \<Rightarrow> val \<Rightarrow> bool" for h :: heap where
  scalar: "typeof v \<noteq> TObject \<or> v = Null \<Longrightarrow> acyclicValue h v"
| object: "finiteContents (h a) \<Longrightarrow> (\<forall>c \<in> set (children h (h a)). acyclicValue h c) \<Longrightarrow> acyclicValue h (Object a)"

code_pred (modes: i \<Rightarrow> i \<Rightarrow> bool) acyclicValue .

text \<open>The objects a value consists of: the value itself and everything nested in it.\<close>

inductive_set reach :: "heap \<Rightarrow> val \<Rightarrow> addr set" for h :: heap and v :: val where
  root: "v = Object a \<Longrightarrow> a \<in> reach h v"
| step: "b \<in> reach h v \<Longrightarrow> Object c \<in> set (children h (h b)) \<Longrightarrow> c \<in> reach h v"

text \<open>
  The accessors the formatter calls on the object do not throw: a type name can be
  computed where one is asked for, and a date has a valid time value.
\<close>

definition renderable :: "obj \<Rightarrow> bool" where
  "renderable ob \<longleftrightarrow>
     (case internal ob of
        RegExpSlot _ \<Rightarrow> True
      | DateSlot isoString \<Rightarrow> constructor ob \<noteq> NoConstructor \<and> isoString \<noteq> None
      | _ \<Rightarrow> constructor ob \<noteq> NoConstructor)"

text \<open>
  The indentation before the first line of what an engine renders: its indentation width
  when the root line is indented and the first line is not skipped.

  The block of an expanded object, as a function of the lines of its entries: the type
  name, the id after \<^verbatim>\<open>#\<close> when ids are shown, a space, the opening bracket, a
  newline, the lines, and the closing bracket, which is preceded by the indentation
  width when the root line is indented.
\<close>

definition firstLineIndentation :: "Formatter \<Rightarrow> string" where
  "firstLineIndentation fm =
     (if indentRoot (options fm) \<and> \<not> skipFirstLineIdentation fm
      then replicate (indent (options fm)) CHR '' '' else [])"

definition blockText :: "Formatter \<Rightarrow> string \<Rightarrow> CircularId \<Rightarrow> string \<times> string \<Rightarrow> string \<Rightarrow> string" where
  "blockText fm constructorName seenId wrapper content =
     firstLineIndentation fm @
     constructorName @
     (if circularId (options fm) then ''#'' @ decimal seenId else []) @
     '' '' @ fst wrapper @ ''\<newline>'' @ content @
     (if indentRoot (options fm) then replicate (indent (options fm)) CHR '' '' else []) @
     snd wrapper"

text \<open>
  The marker of a circular reference: \<^verbatim>\<open>[Circular]\<close>, or \<^verbatim>\<open>[Circular#id]\<close> when ids
  are shown.
\<close>

definition circularMarker :: "Formatter \<Rightarrow> CircularId \<Rightarrow> string" where
  "circularMarker fm i =
     ''[Circular'' @ (if circularId (options fm) then ''#'' @ decimal i else []) @ '']''"

text \<open>The indentation a child engine puts before a first line that it does not skip.\<close>

definition childIndentation :: "Formatter \<Rightarrow> string" where
  "childIndentation fm =
     replicate (indent (options fm) + (if indentRoot (options fm) then initialIndent fm else 0)) CHR '' ''"


text \<open>
  The text of one entry of a block: a bare value as a child engine formats it; the key
  of an entry as a child engine formats it, the separator, and the value as a child
  engine that skips the indentation of its first line formats it.
\<close>

fun entryText :: "heap \<Rightarrow> Formatter \<Rightarrow> item \<Rightarrow> state \<Rightarrow> outcome" where
  "entryText h fm (Value v) st = format h (getChildFormatter fm False) v st"
| "entryText h fm (Entry key value separator) st =
     (case format h (getChildFormatter fm False) key st of
        Inl thrown \<Rightarrow> Inl thrown
      | Inr (k, st1) \<Rightarrow>
          (case format h (getChildFormatter fm True) value st1 of
             Inl thrown \<Rightarrow> Inl thrown
           | Inr (v, st2) \<Rightarrow> Inr (k @ separator @ v, st2)))"

text \<open>
  The lines of the entries of a block, in order, each the text of the entry, a comma and
  a newline; the state is passed from each entry to the next.
\<close>

fun entryLines :: "heap \<Rightarrow> Formatter \<Rightarrow> item list \<Rightarrow> state \<Rightarrow> outcome" where
  "entryLines h fm [] st = Inr ([], st)"
| "entryLines h fm (e # es) st =
     (case entryText h fm e st of
        Inl thrown \<Rightarrow> Inl thrown
      | Inr (line, st1) \<Rightarrow>
          (case entryLines h fm es st1 of
             Inl thrown \<Rightarrow> Inl thrown
           | Inr (rest, st2) \<Rightarrow> Inr (line @ '',\<newline>'' @ rest, st2)))"








text \<open>What a call does to the state when it returns: moreover, the visited set is as before.\<close>

definition advances :: "state \<Rightarrow> state \<Rightarrow> bool" where
  "advances st st' \<longleftrightarrow>
     seen st' = seen st \<and>
     generatedIds (circularIdGenerator st) \<subseteq>\<^sub>m generatedIds (circularIdGenerator st') \<and>
     currentId (circularIdGenerator st) \<le> currentId (circularIdGenerator st') \<and>
     (\<exists>l. circularLog st' = circularLog st @ l)"


text \<open>Two states differ in the ghost log at most.\<close>

definition sameButLog :: "state \<Rightarrow> state \<Rightarrow> bool" where
  "sameButLog st1 st2 \<longleftrightarrow>
     seen st1 = seen st2 \<and> circularIdGenerator st1 = circularIdGenerator st2"

text \<open>
  Two calls end with the same exception or with the same string, in states that differ
  in the ghost log at most.
\<close>

definition agree :: "outcome \<Rightarrow> outcome \<Rightarrow> bool" where
  "agree r1 r2 \<longleftrightarrow> returned r1 = returned r2 \<and> sameButLog (stateAfter r1) (stateAfter r2)"

section \<open>Example values\<close>

text \<open>An object literal \<^verbatim>\<open>{ k: v, ... }\<close>.\<close>

definition objectLiteral :: "(string \<times> val) list \<Rightarrow> obj" where
  "objectLiteral props =
     \<lparr> internal = Ordinary, constructor = Constructor (Some ''Object''), toStringTag = ''Object'',
       ownKeys = props, otherProps = [], iterator = None, entryFields = None \<rparr>"

text \<open>\<^verbatim>\<open>Object.create(null)\<close>: no prototype, hence no \<^verbatim>\<open>constructor\<close> property.\<close>

definition nullPrototypeObject :: obj where
  "nullPrototypeObject = (objectLiteral []) \<lparr> constructor := NoConstructor \<rparr>"

text \<open>\<^verbatim>\<open>new Map(pairs)\<close>; the \<open>iterator\<close> field is read for ordinary objects only.\<close>

definition mapObject :: "(val \<times> val) list \<Rightarrow> obj" where
  "mapObject kvs =
     \<lparr> internal = MapSlot kvs, constructor = Constructor (Some ''Map''), toStringTag = ''Map'',
       ownKeys = [], otherProps = [(''size'', NumberV (integral (int (length kvs))))],
       iterator = None, entryFields = None \<rparr>"




text \<open>A heap in which every address holds the empty object literal, to be updated.\<close>

definition emptyObjects :: heap where
  "emptyObjects = (\<lambda>_. objectLiteral [])"


text \<open>\<^verbatim>\<open>{ a: v, b: v }\<close> at address 0, with \<^verbatim>\<open>v = {}\<close> at address 1.\<close>

definition sharedHeap :: heap where
  "sharedHeap = emptyObjects(0 := objectLiteral [(''a'', Object 1), (''b'', Object 1)])"

text \<open>
  \<^verbatim>\<open>v = { o: {}, self: v }\<close> at address 0, the inner object at address 1.
\<close>

definition cappedHeap :: heap where
  "cappedHeap = emptyObjects(0 := objectLiteral [(''o'', Object 1), (''self'', Object 0)])"






section \<open>Unfolding the engine\<close>

declare format.simps(9) [simp del] formatArray.simps [simp del] formatIterable.simps [simp del]
  formatMap.simps [simp del] formatObject.simps [simp del] formatSet.simps [simp del]
  formatObjectEntries.simps [simp del] formatItems.simps(2) [simp del]

lemma returned_simps [simp]:
  "returned (Inl (e, st)) = Inl e" "returned (Inr (s, st)) = Inr s"
  by (simp_all add: returned_def)

lemma stateAfter_simps [simp]:
  "stateAfter (Inl (e, st)) = st" "stateAfter (Inr (s, st)) = st"
  by (simp_all add: stateAfter_def)

lemma outcome_cases [case_names throws returns]:
  obtains (throws) e st where "r = Inl (e, st)" | (returns) s st where "r = Inr (s, st)"
  by (cases r) auto

lemma format_composite:
  "compositeOf (h a) = Some (wrapper, c) \<Longrightarrow>
     format h fm (Object a) st = formatObjectEntries h fm a wrapper c st"
  by (auto simp: compositeOf_def formatArray.simps formatIterable.simps formatMap.simps
        formatObject.simps formatSet.simps format.simps(9)
      split: internal.splits option.splits)

lemma format_line:
  "compositeOf (h a) = None \<Longrightarrow>
     format h fm (Object a) st =
       (case internal (h a) of
          DateSlot isoString \<Rightarrow>
            (case formatDate fm (h a) isoString of
               Inl e \<Rightarrow> Inl (e, st)
             | Inr s \<Rightarrow> Inr (s, st))
        | RegExpSlot regex \<Rightarrow> Inr (formatRegExp fm regex, st)
        | _ \<Rightarrow> Inl (TypeError, st))"
  by (auto simp: compositeOf_def format.simps(9) split: internal.splits option.splits)

lemma format_line_state:
  "compositeOf (h a) = None \<Longrightarrow> stateAfter (format h fm (Object a) st) = st"
  by (auto simp: format_line split: internal.splits sum.splits)

lemma format_scalar:
  "\<forall>a. v \<noteq> Object a \<Longrightarrow> \<exists>s. format h fm v st = Inr (s, st)"
  by (cases v) simp_all

lemma entries_seen:
  "seen st a = Some i \<Longrightarrow>
     formatObjectEntries h fm a wrapper c st =
       Inr (formatCircularRef fm st a, st\<lparr>circularLog := circularLog st @ [a]\<rparr>)"
  by (simp add: formatObjectEntries.simps)

lemma entries_throw:
  "seen st a = None \<Longrightarrow> getConstructorName (h a) = Inl e \<Longrightarrow>
     formatObjectEntries h fm a wrapper c st = Inl (e, st)"
  by (simp add: formatObjectEntries.simps)

lemma entries_deep:
  "seen st a = None \<Longrightarrow> getConstructorName (h a) = Inr name \<Longrightarrow> hitMaxDepth fm \<Longrightarrow>
     formatObjectEntries h fm a wrapper c st =
       Inr (formatWithIndent (wrap (''['', '']'') name) (indent (options fm)), st)"
  by (simp add: formatObjectEntries.simps)

lemma entries_enter:
  "seen st a = None \<Longrightarrow> getConstructorName (h a) = Inr name \<Longrightarrow> \<not> hitMaxDepth fm \<Longrightarrow>
   generateId a (circularIdGenerator st) = (seenId, g) \<Longrightarrow>
     formatObjectEntries h fm a wrapper c st =
       (case formatItems h fm (yielded c) []
               (st\<lparr>circularIdGenerator := g, seen := (seen st)(a \<mapsto> seenId)\<rparr>) of
          Inl thrown \<Rightarrow> Inl thrown
        | Inr (content, st1) \<Rightarrow>
            (case c of
               Endless _ \<Rightarrow> Inl (RangeError, st1)
             | Yields _ \<Rightarrow>
                 Inr (blockText fm name seenId wrapper content,
                      st1\<lparr>seen := (seen st1)(a := None)\<rparr>)))"
  by (simp add: formatObjectEntries.simps blockText_def firstLineIndentation_def formatFirstLine_def
        formatWithIndent_def wrap_def split: sum.splits contents.splits)

lemma entries_expand:
  "seen st a = None \<Longrightarrow> getConstructorName (h a) = Inr name \<Longrightarrow> \<not> hitMaxDepth fm \<Longrightarrow>
   generateId a (circularIdGenerator st) = (seenId, g) \<Longrightarrow>
     formatObjectEntries h fm a wrapper (Yields items) st =
       (case formatItems h fm items []
               (st\<lparr>circularIdGenerator := g, seen := (seen st)(a \<mapsto> seenId)\<rparr>) of
          Inl thrown \<Rightarrow> Inl thrown
        | Inr (content, st1) \<Rightarrow>
            Inr (blockText fm name seenId wrapper content, st1\<lparr>seen := (seen st1)(a := None)\<rparr>))"
  by (simp add: entries_enter split: sum.splits)

lemma entries_endless:
  "seen st a = None \<Longrightarrow> getConstructorName (h a) = Inr name \<Longrightarrow> \<not> hitMaxDepth fm \<Longrightarrow>
   generateId a (circularIdGenerator st) = (seenId, g) \<Longrightarrow>
     formatObjectEntries h fm a wrapper (Endless items) st =
       (case formatItems h fm items []
               (st\<lparr>circularIdGenerator := g, seen := (seen st)(a \<mapsto> seenId)\<rparr>) of
          Inl thrown \<Rightarrow> Inl thrown
        | Inr (content, st1) \<Rightarrow> Inl (RangeError, st1))"
  by (simp add: entries_enter split: sum.splits)

lemma items_value:
  "instanceofEntry h entry = Value v \<Longrightarrow>
     formatItems h fm (entry # items) content st =
       (case format h (getChildFormatter fm False) v st of
          Inl thrown \<Rightarrow> Inl thrown
        | Inr (s, st') \<Rightarrow> formatItems h fm items (content @ s @ '',\<newline>'') st')"
  by (simp add: formatItems.simps(2))

lemma items_entry:
  "instanceofEntry h entry = Entry key value separator \<Longrightarrow>
     formatItems h fm (entry # items) content st =
       (case format h (getChildFormatter fm False) key st of
          Inl thrown \<Rightarrow> Inl thrown
        | Inr (k, st1) \<Rightarrow>
            (case format h (getChildFormatter fm True) value st1 of
               Inl thrown \<Rightarrow> Inl thrown
             | Inr (v, st2) \<Rightarrow>
                 formatItems h fm items (content @ wrap (k, v @ '',\<newline>'') separator) st2))"
  by (simp add: formatItems.simps(2))

text \<open>The ways in which \<^verbatim>\<open>_formatObjectEntries\<close> returns.\<close>

lemma entries_cases [consumes 1, case_names circular deep expanded]:
  assumes "formatObjectEntries h fm a wrapper c st = Inr (s, st')"
  obtains
    (circular) i where "seen st a = Some i" "s = formatCircularRef fm st a"
      "st' = st\<lparr>circularLog := circularLog st @ [a]\<rparr>"
  | (deep) name where "seen st a = None" "getConstructorName (h a) = Inr name" "hitMaxDepth fm"
      "s = formatWithIndent (wrap (''['', '']'') name) (indent (options fm))" "st' = st"
  | (expanded) name seenId g items content st1 where
      "seen st a = None" "getConstructorName (h a) = Inr name" "\<not> hitMaxDepth fm"
      "generateId a (circularIdGenerator st) = (seenId, g)" "c = Yields items"
      "formatItems h fm items [] (st\<lparr>circularIdGenerator := g, seen := (seen st)(a \<mapsto> seenId)\<rparr>)
         = Inr (content, st1)"
      "s = blockText fm name seenId wrapper content" "st' = st1\<lparr>seen := (seen st1)(a := None)\<rparr>"
proof (cases "seen st a")
  case (Some i)
  with assms have "s = formatCircularRef fm st a" "st' = st\<lparr>circularLog := circularLog st @ [a]\<rparr>"
    by (simp_all add: entries_seen)
  with Some show ?thesis by (rule circular)
next
  case None
  show ?thesis
  proof (cases "getConstructorName (h a)")
    case (Inl e)
    with assms None show ?thesis by (simp add: entries_throw)
  next
    case (Inr name)
    show ?thesis
    proof (cases "hitMaxDepth fm")
      case True
      with assms None Inr
      have "s = formatWithIndent (wrap (''['', '']'') name) (indent (options fm))" "st' = st"
        by (simp_all add: entries_deep)
      with None Inr True show ?thesis by (rule deep)
    next
      case False
      obtain seenId g where gen: "generateId a (circularIdGenerator st) = (seenId, g)"
        by (cases "generateId a (circularIdGenerator st)")
      let ?st0 = "st\<lparr>circularIdGenerator := g, seen := (seen st)(a \<mapsto> seenId)\<rparr>"
      show ?thesis
      proof (cases c)
        case (Endless items)
        with assms None Inr False gen show ?thesis
          by (cases "formatItems h fm items [] ?st0") (auto simp: entries_endless)
      next
        case (Yields items)
        from assms None Inr False gen Yields
        obtain content st1 where run: "formatItems h fm items [] ?st0 = Inr (content, st1)"
          and res: "s = blockText fm name seenId wrapper content"
            "st' = st1\<lparr>seen := (seen st1)(a := None)\<rparr>"
          by (cases "formatItems h fm items [] ?st0") (auto simp: entries_expand)
        from None Inr False gen Yields run res show ?thesis by (rule expanded)
      qed
    qed
  qed
qed


section \<open>Induction along the calls\<close>

lemma format_induct [case_names scalar object entries nil val entry]:
  fixes P :: "heap \<Rightarrow> Formatter \<Rightarrow> val \<Rightarrow> state \<Rightarrow> bool"
    and Q :: "heap \<Rightarrow> Formatter \<Rightarrow> addr \<Rightarrow> string \<times> string \<Rightarrow> contents \<Rightarrow> state \<Rightarrow> bool"
    and R :: "heap \<Rightarrow> Formatter \<Rightarrow> item list \<Rightarrow> string \<Rightarrow> state \<Rightarrow> bool"
  assumes scalar: "\<And>h fm v st. \<forall>a. v \<noteq> Object a \<Longrightarrow> P h fm v st"
    and object: "\<And>h fm a st.
        (\<And>wrapper c. compositeOf (h a) = Some (wrapper, c) \<Longrightarrow> Q h fm a wrapper c st)
        \<Longrightarrow> P h fm (Object a) st"
    and entries: "\<And>h fm a wrapper c st.
        (\<And>name seenId g.
            \<lbrakk>seen st a = None; getConstructorName (h a) = Inr name; \<not> hitMaxDepth fm;
             generateId a (circularIdGenerator st) = (seenId, g)\<rbrakk>
            \<Longrightarrow> R h fm (yielded c) [] (st\<lparr>circularIdGenerator := g, seen := (seen st)(a \<mapsto> seenId)\<rparr>))
        \<Longrightarrow> Q h fm a wrapper c st"
    and nil: "\<And>h fm content st. R h fm [] content st"
    and val: "\<And>h fm entry v items content st.
        \<lbrakk>instanceofEntry h entry = Value v;
         P h (getChildFormatter fm False) v st;
         \<And>s st'. format h (getChildFormatter fm False) v st = Inr (s, st')
            \<Longrightarrow> R h fm items (content @ s @ '',\<newline>'') st'\<rbrakk>
        \<Longrightarrow> R h fm (entry # items) content st"
    and entry: "\<And>h fm entry key value separator items content st.
        \<lbrakk>instanceofEntry h entry = Entry key value separator;
         P h (getChildFormatter fm False) key st;
         \<And>k st1. format h (getChildFormatter fm False) key st = Inr (k, st1)
            \<Longrightarrow> P h (getChildFormatter fm True) value st1;
         \<And>k st1 v st2.
            \<lbrakk>format h (getChildFormatter fm False) key st = Inr (k, st1);
             format h (getChildFormatter fm True) value st1 = Inr (v, st2)\<rbrakk>
            \<Longrightarrow> R h fm items (content @ wrap (k, v @ '',\<newline>'') separator) st2\<rbrakk>
        \<Longrightarrow> R h fm (entry # items) content st"
  shows "P h fm v st" and "Q h fm a wrapper c st" and "R h fm items content st"
proof -
  have cons: "R h fm (entry # items) content st"
    if "\<And>v. instanceofEntry h entry = Value v \<Longrightarrow> P h (getChildFormatter fm False) v st"
      and "\<And>v s st'. instanceofEntry h entry = Value v \<Longrightarrow>
            format h (getChildFormatter fm False) v st = Inr (s, st') \<Longrightarrow>
            R h fm items (content @ s @ '',\<newline>'') st'"
      and "\<And>key value separator. instanceofEntry h entry = Entry key value separator \<Longrightarrow>
            P h (getChildFormatter fm False) key st"
      and "\<And>key value separator k st1. instanceofEntry h entry = Entry key value separator \<Longrightarrow>
            format h (getChildFormatter fm False) key st = Inr (k, st1) \<Longrightarrow>
            P h (getChildFormatter fm True) value st1"
      and "\<And>key value separator k st1 v st2. instanceofEntry h entry = Entry key value separator \<Longrightarrow>
            format h (getChildFormatter fm False) key st = Inr (k, st1) \<Longrightarrow>
            format h (getChildFormatter fm True) value st1 = Inr (v, st2) \<Longrightarrow>
            R h fm items (content @ wrap (k, v @ '',\<newline>'') separator) st2"
    for h fm entry items content st
  proof (cases "instanceofEntry h entry")
    case (Value v)
    show ?thesis by (rule val[OF Value]) (use Value that in auto)
  next
    case (Entry key "value" separator)
    show ?thesis by (rule entry[OF Entry]) (use Entry that in auto)
  qed
  note raw = format_formatArray_formatIterable_formatMap_formatObject_formatSet_formatObjectEntries_formatItems.induct
      [where ?P1.0 = P
         and ?P2.0 = "\<lambda>h fm a len st. Q h fm a (''['', '']'') (arrayContents (h a) len) st"
         and ?P3.0 = "\<lambda>h fm a vs st. Q h fm a (''{'', ''}'') (valueContents vs) st"
         and ?P4.0 = "\<lambda>h fm a kvs st. Q h fm a (''{'', ''}'') (mapContents kvs) st"
         and ?P5.0 = "\<lambda>h fm a st. Q h fm a (''{'', ''}'') (objectContents (h a)) st"
         and ?P6.0 = "\<lambda>h fm a vs st. Q h fm a (''{'', ''}'') (valueContents vs) st"
         and ?P7.0 = Q and ?P8.0 = R]
  show "P h fm v st"
    by (rule raw(1);
        (assumption | (rule object, auto simp: compositeOf_def split: internal.splits option.splits)[1]
         | (rule entries, auto)[1] | (rule cons, auto)[1] | rule nil
         | (rule scalar, simp)))
  show "Q h fm a wrapper c st"
    by (rule raw(7);
        (assumption | (rule object, auto simp: compositeOf_def split: internal.splits option.splits)[1]
         | (rule entries, auto)[1] | (rule cons, auto)[1] | rule nil
         | (rule scalar, simp)))
  show "R h fm items content st"
    by (rule raw(8);
        (assumption | (rule object, auto simp: compositeOf_def split: internal.splits option.splits)[1]
         | (rule entries, auto)[1] | (rule cons, auto)[1] | rule nil
         | (rule scalar, simp)))
qed


section \<open>What a call does to the state\<close>

lemma advances_refl: "advances st st"
  by (simp add: advances_def)

lemma advances_trans: "advances st st1 \<Longrightarrow> advances st1 st2 \<Longrightarrow> advances st st2"
  by (auto simp: advances_def intro: map_le_trans)




lemma generateId_mono:
  "generateId a g = (i, g') \<Longrightarrow>
     generatedIds g \<subseteq>\<^sub>m generatedIds g' \<and> currentId g \<le> currentId g' \<and> generatedIds g' a = Some i"
  by (auto simp: generateId_def map_le_def split: option.splits)


lemma format_advances:
  "format h fm v st = Inr (s, st') \<Longrightarrow> advances st st'"
  "formatObjectEntries h fm a wrapper c st = Inr (s, st') \<Longrightarrow> advances st st'"
  "formatItems h fm items content st = Inr (s, st') \<Longrightarrow> advances st st'"
proof (induction h fm v st and h fm a wrapper c st and h fm items content st
       arbitrary: s st' and s st' and s st' rule: format_induct)
  case (scalar h fm v st)
  then show ?case using format_scalar[of v h fm st] by (auto simp: advances_refl)
next
  case (object h fm a st)
  show ?case
  proof (cases "compositeOf (h a)")
    case None
    with object.prems show ?thesis
      by (auto simp: format_line advances_refl split: internal.splits sum.splits)
  next
    case (Some wc)
    with object.prems object.IH[of "fst wc" "snd wc"] show ?thesis
      by (cases wc) (auto simp: format_composite)
  qed
next
  case (entries h fm a wrapper c st)
  from entries.prems show ?case
  proof (cases rule: entries_cases)
    case (circular i)
    then show ?thesis by (auto simp: advances_def)
  next
    case (deep name)
    then show ?thesis by (simp add: advances_refl)
  next
    case (expanded name seenId g items content st1)
    from entries.IH[OF expanded(1-4)] expanded(5,6)
    have "advances (st\<lparr>circularIdGenerator := g, seen := (seen st)(a \<mapsto> seenId)\<rparr>) st1" by simp
    with expanded generateId_mono[of a "circularIdGenerator st" seenId g]
    show ?thesis
      by (auto simp: advances_def intro: map_le_trans)
  qed
next
  case (nil h fm content st)
  then show ?case by (simp add: advances_refl)
next
  case (val h fm entry v items content st)
  from val.prems obtain s1 st1 where
    1: "format h (getChildFormatter fm False) v st = Inr (s1, st1)" and
    2: "formatItems h fm items (content @ s1 @ '',\<newline>'') st1 = Inr (s, st')"
    by (auto simp: items_value[OF val.hyps] split: sum.splits)
  from val.IH(1)[OF 1] val.IH(2)[OF 1 2] show ?case by (rule advances_trans)
next
  case (entry h fm entry key "value" separator items content st)
  from entry.prems obtain k st1 v st2 where
    1: "format h (getChildFormatter fm False) key st = Inr (k, st1)" and
    2: "format h (getChildFormatter fm True) value st1 = Inr (v, st2)" and
    3: "formatItems h fm items (content @ wrap (k, v @ '',\<newline>'') separator) st2 = Inr (s, st')"
    by (auto simp: items_entry[OF entry.hyps] split: sum.splits)
  from entry.IH(1)[OF 1] entry.IH(2)[OF 1 2] entry.IH(3)[OF 1 2 3] show ?case
    by (blast intro: advances_trans)
qed



section \<open>The ghost log is inert\<close>

text \<open>
  The field \<open>circularLog\<close> is written and never read: started in states that differ in
  the log at most, a call ends with the same exception or the same string, in states
  that again differ in the log at most.
\<close>

lemma agree_Inl: "agree (Inl (e, st1)) r \<longleftrightarrow> (\<exists>st2. r = Inl (e, st2) \<and> sameButLog st1 st2)"
  by (cases r rule: outcome_cases) (auto simp: agree_def)

lemma agree_Inr: "agree (Inr (s, st1)) r \<longleftrightarrow> (\<exists>st2. r = Inr (s, st2) \<and> sameButLog st1 st2)"
  by (cases r rule: outcome_cases) (auto simp: agree_def)

lemma format_ignores_log:
  "sameButLog st st2 \<Longrightarrow> agree (format h fm v st) (format h fm v st2)"
  "sameButLog st st2 \<Longrightarrow>
     agree (formatObjectEntries h fm a wrapper c st) (formatObjectEntries h fm a wrapper c st2)"
  "sameButLog st st2 \<Longrightarrow>
     agree (formatItems h fm items content st) (formatItems h fm items content st2)"
proof (induction h fm v st and h fm a wrapper c st and h fm items content st
       arbitrary: st2 and st2 and st2 rule: format_induct)
  case (scalar h fm v st)
  then show ?case by (cases v) (simp_all add: agree_Inr)
next
  case (object h fm a st)
  show ?case
  proof (cases "compositeOf (h a)")
    case None
    then show ?thesis using object.prems
      by (auto simp: format_line agree_Inr agree_Inl split: internal.splits sum.splits)
  next
    case (Some wc)
    obtain wrapper c where "wc = (wrapper, c)" by (cases wc)
    with Some object.IH[of wrapper c, OF _ object.prems] show ?thesis
      by (simp add: format_composite)
  qed
next
  case (entries h fm a wrapper c st)
  from entries.prems have same: "seen st2 = seen st" "circularIdGenerator st2 = circularIdGenerator st"
    by (simp_all add: sameButLog_def)
  show ?case
  proof (cases "seen st a = None \<and> \<not> hitMaxDepth fm \<and> (\<exists>name. getConstructorName (h a) = Inr name)")
    case True
    then obtain name where name: "getConstructorName (h a) = Inr name"
      and unseen: "seen st a = None" and deep: "\<not> hitMaxDepth fm" by blast
    obtain i g where gen: "generateId a (circularIdGenerator st) = (i, g)"
      by (cases "generateId a (circularIdGenerator st)")
    let ?st0 = "st\<lparr>circularIdGenerator := g, seen := (seen st)(a \<mapsto> i)\<rparr>"
    let ?st20 = "st2\<lparr>circularIdGenerator := g, seen := (seen st2)(a \<mapsto> i)\<rparr>"
    have "sameButLog ?st0 ?st20" using same by (simp add: sameButLog_def)
    from entries.IH[OF unseen name deep gen this]
    have sim: "agree (formatItems h fm (yielded c) [] ?st0) (formatItems h fm (yielded c) [] ?st20)" .
    have 1: "formatObjectEntries h fm a wrapper c st =
        (case formatItems h fm (yielded c) [] ?st0 of
          Inl thrown \<Rightarrow> Inl thrown
        | Inr (content, st1) \<Rightarrow>
            (case c of
               Endless _ \<Rightarrow> Inl (RangeError, st1)
             | Yields _ \<Rightarrow>
                 Inr (blockText fm name i wrapper content, st1\<lparr>seen := (seen st1)(a := None)\<rparr>)))"
      using unseen name deep gen by (rule entries_enter)
    have 2: "formatObjectEntries h fm a wrapper c st2 =
        (case formatItems h fm (yielded c) [] ?st20 of
          Inl thrown \<Rightarrow> Inl thrown
        | Inr (content, st1) \<Rightarrow>
            (case c of
               Endless _ \<Rightarrow> Inl (RangeError, st1)
             | Yields _ \<Rightarrow>
                 Inr (blockText fm name i wrapper content, st1\<lparr>seen := (seen st1)(a := None)\<rparr>)))"
      using unseen name deep gen same by (intro entries_enter) simp_all
    show ?thesis
    proof (cases "formatItems h fm (yielded c) [] ?st0" rule: outcome_cases)
      case (throws e st1)
      with sim obtain st21 where "formatItems h fm (yielded c) [] ?st20 = Inl (e, st21)"
        "sameButLog st1 st21"
        by (auto simp: agree_Inl)
      with throws show ?thesis unfolding 1 2 by (simp add: agree_Inl)
    next
      case (returns content st1)
      with sim obtain st21 where "formatItems h fm (yielded c) [] ?st20 = Inr (content, st21)"
        "sameButLog st1 st21"
        by (auto simp: agree_Inr)
      with returns show ?thesis unfolding 1 2
        by (cases c) (simp_all add: agree_Inr agree_Inl sameButLog_def)
    qed
  next
    case False
    then show ?thesis using same
      by (auto simp: formatObjectEntries.simps agree_Inr agree_Inl sameButLog_def formatCircularRef_def
          split: sum.splits prod.splits contents.splits)
  qed
next
  case (nil h fm content st)
  then show ?case by (simp add: agree_Inr)
next
  case (val h fm entry v items content st)
  note eq = items_value[OF val.hyps]
  from val.IH(1)[OF val.prems]
  have sim: "agree (format h (getChildFormatter fm False) v st) (format h (getChildFormatter fm False) v st2)" .
  show ?case
  proof (cases "format h (getChildFormatter fm False) v st" rule: outcome_cases)
    case (throws e st1)
    with sim obtain st21 where "format h (getChildFormatter fm False) v st2 = Inl (e, st21)"
      "sameButLog st1 st21" by (auto simp: agree_Inl)
    with throws show ?thesis by (simp add: eq agree_Inl)
  next
    case (returns s1 st1)
    with sim obtain st21 where 2: "format h (getChildFormatter fm False) v st2 = Inr (s1, st21)"
      and d: "sameButLog st1 st21"
      by (auto simp: agree_Inr)
    from val.IH(2)[OF returns d] returns 2 show ?thesis by (simp add: eq)
  qed
next
  case (entry h fm entry key "value" separator items content st)
  note eq = items_entry[OF entry.hyps]
  from entry.IH(1)[OF entry.prems]
  have sim: "agree (format h (getChildFormatter fm False) key st)
      (format h (getChildFormatter fm False) key st2)" .
  show ?case
  proof (cases "format h (getChildFormatter fm False) key st" rule: outcome_cases)
    case (throws e st1)
    with sim obtain st21 where "format h (getChildFormatter fm False) key st2 = Inl (e, st21)"
      "sameButLog st1 st21" by (auto simp: agree_Inl)
    with throws show ?thesis by (simp add: eq agree_Inl)
  next
    case (returns k st1)
    note key = this
    with sim obtain st21 where 2: "format h (getChildFormatter fm False) key st2 = Inr (k, st21)"
      and d: "sameButLog st1 st21"
      by (auto simp: agree_Inr)
    from entry.IH(2)[OF key d]
    have simv: "agree (format h (getChildFormatter fm True) value st1)
      (format h (getChildFormatter fm True) value st21)" .
    show ?thesis
    proof (cases "format h (getChildFormatter fm True) value st1" rule: outcome_cases)
      case (throws e st1')
      with simv obtain st21' where "format h (getChildFormatter fm True) value st21 = Inl (e, st21')"
        "sameButLog st1' st21'" by (auto simp: agree_Inl)
      with throws key 2 show ?thesis by (simp add: eq agree_Inl)
    next
      case (returns v st1')
      with simv obtain st21' where 3: "format h (getChildFormatter fm True) value st21 = Inr (v, st21')"
        and d': "sameButLog st1' st21'"
        by (auto simp: agree_Inr)
      from entry.IH(3)[OF key returns d'] key returns 2 3
      show ?thesis by (simp add: eq)
    qed
  qed
qed


section \<open>Configuration of child engines\<close>

text \<open>
  Claim C9, amended.  A child engine takes over the maximal depth, \<open>escapeString\<close> and
  \<open>circularId\<close> of its parent unchanged, and the initial indentation.  Its \<open>indentRoot\<close>
  is true whatever the parent's is.  Its indentation width is the parent's, increased by
  the initial indentation when the parent's \<open>indentRoot\<close> is true and not increased
  otherwise.  It is one level deeper than the parent.
\<close>

theorem child_configuration:
  "depth (options (getChildFormatter fm skipFirst)) = depth (options fm) \<and>
   escapeString (options (getChildFormatter fm skipFirst)) = escapeString (options fm) \<and>
   circularId (options (getChildFormatter fm skipFirst)) = circularId (options fm) \<and>
   indentRoot (options (getChildFormatter fm skipFirst)) = True \<and>
   indent (options (getChildFormatter fm skipFirst)) =
     indent (options fm) + (if indentRoot (options fm) then initialIndent fm else 0) \<and>
   initialIndent (getChildFormatter fm skipFirst) = initialIndent fm \<and>
   skipFirstLineIdentation (getChildFormatter fm skipFirst) = skipFirst \<and>
   currentDepth (getChildFormatter fm skipFirst) = currentDepth fm + 1"
  by (simp add: getChildFormatter_def newFormatter_def mergeOptions_def allOptions_def)

text \<open>
  Claim C9 as stated fails for the children of an engine with the default options:
  their \<open>indentRoot\<close> differs from the parent's, and their indentation width has not
  grown.
\<close>

theorem child_configuration_counterexample:
  "indentRoot (options (getChildFormatter (Formatter_new noOptions) False))
     \<noteq> indentRoot (options (Formatter_new noOptions)) \<and>
   indent (options (getChildFormatter (Formatter_new noOptions) False))
     = indent (options (Formatter_new noOptions))"
  by (simp add: getChildFormatter_def newFormatter_def mergeOptions_def allOptions_def
        Formatter_new_def noOptions_def defaultFormatterOptions_def)

section \<open>The Map example\<close>

text \<open>
  Claim C8, amended.  With the default options, the Map with the single entry
  \<^verbatim>\<open>"k"\<close> to \<^verbatim>\<open>"v"\<close> is rendered as \<^verbatim>\<open>Map {\<close>, a newline, two spaces,
  \<^verbatim>\<open>"k" => "v",\<close>, a newline, and \<^verbatim>\<open>}\<close>.
\<close>

theorem map_example:
  \<open>returned (format (emptyObjects(0 := mapObject [(StringV ''k'', StringV ''v'')]))
      (Formatter_new noOptions) (Object 0) newState)
   = Inr ''Map {\<newline>  "k" => "v",\<newline>}''\<close>
  by code_simp

text \<open>
  Claim C8 as stated: the result is not the string of the claim, which has the entry
  on the line of the opening brace and a space before the closing one.
\<close>

theorem map_example_counterexample:
  \<open>returned (format (emptyObjects(0 := mapObject [(StringV ''k'', StringV ''v'')]))
      (Formatter_new noOptions) (Object 0) newState)
   \<noteq> Inr ''Map { "k" => "v",\<newline> }''\<close>
  by code_simp

section \<open>The depth guard\<close>


text \<open>
  Claim C6 fails on the code.  With maximal depth 1 and the default options, where the
  root line is not to be indented, the empty object literal is rendered with two leading
  spaces, not as \<^verbatim>\<open>[Object]\<close>.  With maximal depth 2, the depth marker of the
  inner object of \<^verbatim>\<open>v = { o: {}, self: v }\<close> stands two spaces to the right of
  the place of a value, where the circular marker of the next entry stands.
\<close>

theorem depth_marker_padded:
  \<open>returned (format emptyObjects (Formatter_new (noOptions\<lparr>depthArg := Some 1\<rparr>)) (Object 0) newState)
     = Inr ''  [Object]'' \<and>
   returned (format cappedHeap (Formatter_new (noOptions\<lparr>depthArg := Some 2\<rparr>)) (Object 0) newState)
     = Inr ''Object {\<newline>  "o":   [Object],\<newline>  "self": [Circular],\<newline>}''\<close>
  by code_simp

section \<open>Dispatch on the category\<close>


section \<open>The entries of a composite value\<close>

text \<open>
  The generators of the source yield the entries of the object, and \<^verbatim>\<open>format\<close> passes
  its bracket pair on.
\<close>

lemma iterations_None [simp]: "iterations len = None \<longleftrightarrow> len = PosInfinity"
  by (cases len) simp_all

lemma items_tail:
  "\<forall>x \<in> set (concat (map f (y # ys))). P x \<Longrightarrow> \<forall>x \<in> set (concat (map f ys)). P x"
  by simp

lemma items_head:
  "\<forall>x \<in> set (concat (map (itemVals \<circ> g) (y # ys))). P x \<Longrightarrow> g y = Value v \<Longrightarrow> P v"
  "\<forall>x \<in> set (concat (map (itemVals \<circ> g) (y # ys))). P x \<Longrightarrow> g y = Entry key value separator \<Longrightarrow>
     P key \<and> P value"
  by simp_all

lemma element_instanceof: "element h v = instanceofEntry h (Value v)"
  by (cases v) (simp_all split: option.splits)

lemma instanceofEntry_Entry [simp]:
  "map (instanceofEntry h) (map (\<lambda>(key, value). Entry (f key) value separator) kvs) =
     map (\<lambda>(key, value). Entry (f key) value separator) kvs"
  by (induction kvs) auto

lemma composite_entries:
  assumes "compositeOf ob = Some (wrapper, c)"
  shows "map (instanceofEntry h) (yielded c) = entries h ob"
    and "wrapper = brackets ob"
    and "finiteContents ob \<longleftrightarrow> (\<exists>items. c = Yields items)"
proof -
  have id: "map (instanceofEntry h) (map (\<lambda>(key, value). Entry key value separator) kvs) =
     map (\<lambda>(key, value). Entry key value separator) kvs" for separator kvs
    using instanceofEntry_Entry[of h "\<lambda>k. k" separator kvs] by simp
  from assms show "map (instanceofEntry h) (yielded c) = entries h ob"
    by (auto simp: compositeOf_def entries_def mapContents_def valueContents_def objectContents_def
        arrayContents_def mapPairs_def setElements_def iteratedValues_def indexCount_def
        lengthValue_def element_instanceof id comp_def
        split: internal.splits option.splits number.splits)
  from assms show "wrapper = brackets ob"
    by (auto simp: compositeOf_def brackets_def split: internal.splits option.splits)
  from assms show "finiteContents ob \<longleftrightarrow> (\<exists>items. c = Yields items)"
    by (auto simp: compositeOf_def finiteContents_def mapContents_def valueContents_def
        objectContents_def arrayContents_def
        split: internal.splits option.splits number.splits)
qed

lemma children_items:
  "compositeOf ob = Some (wrapper, c) \<Longrightarrow>
     children h ob = concat (map (itemVals \<circ> instanceofEntry h) (yielded c))"
  using composite_entries(1)[of ob wrapper c h] by (simp add: children_def flip: map_map)

lemma children_line: "compositeOf ob = None \<Longrightarrow> children h ob = []"
  by (auto simp: compositeOf_def children_def entries_def mapPairs_def setElements_def
      split: internal.splits option.splits)

section \<open>Acyclic values\<close>

lemma reach_scalar: "\<forall>a. v \<noteq> Object a \<Longrightarrow> reach h v = {}"
proof -
  assume *: "\<forall>a. v \<noteq> Object a"
  have "b \<notin> reach h v" for b
  proof
    assume "b \<in> reach h v"
    then show False by induction (use * in auto)
  qed
  then show ?thesis by auto
qed

lemma reach_self: "a \<in> reach h (Object a)"
  by (rule reach.root) simp

lemma reach_child:
  assumes "c \<in> set (children h (h a))" and "b \<in> reach h c"
  shows "b \<in> reach h (Object a)"
  using assms(2)
proof induction
  case (root b)
  with assms(1) show ?case by (auto intro: reach.step reach_self)
next
  case (step b c')
  then show ?case by (auto intro: reach.step)
qed

lemma reach_split:
  assumes "b \<in> reach h (Object a)"
  shows "b = a \<or> (\<exists>c \<in> set (children h (h a)). b \<in> reach h c)"
  using assms
proof induction
  case (root b)
  then show ?case by simp
next
  case (step b c)
  then show ?case
    by (metis reach.root reach.step)
qed

lemma acyclic_Object:
  "acyclicValue h (Object a) \<Longrightarrow>
     finiteContents (h a) \<and> (\<forall>c \<in> set (children h (h a)). acyclicValue h c)"
  by (erule acyclicValue.cases) auto

lemma acyclic_no_way_back:
  "acyclicValue h v \<Longrightarrow> \<forall>b \<in> reach h v. \<forall>c \<in> set (children h (h b)). b \<notin> reach h c"
proof (induction rule: acyclicValue.induct)
  case (scalar v)
  then have "reach h v = {}" by (intro reach_scalar) auto
  then show ?case by simp
next
  case (object a)
  show ?case
  proof (intro ballI notI)
    fix b c
    assume b: "b \<in> reach h (Object a)" and c: "c \<in> set (children h (h b))" and cyc: "b \<in> reach h c"
    from reach_split[OF b] show False
    proof
      assume "b = a"
      with c cyc object.IH show False by blast
    next
      assume "\<exists>c0 \<in> set (children h (h a)). b \<in> reach h c0"
      with c cyc object.IH show False by blast
    qed
  qed
qed

lemma renderable_name:
  "renderable ob \<Longrightarrow> compositeOf ob = Some (wrapper, c) \<Longrightarrow> \<exists>name. getConstructorName ob = Inr name"
  by (auto simp: renderable_def compositeOf_def getConstructorName_def
      split: internal.splits ctor.splits option.splits)

lemma renderable_line:
  "renderable (h a) \<Longrightarrow> compositeOf (h a) = None \<Longrightarrow> \<exists>s. format h fm (Object a) st = Inr (s, st)"
  by (auto simp: renderable_def format_line formatDate_def getConstructorName_def compositeOf_def
      split: internal.splits ctor.splits option.splits)

text \<open>
  What is asked of a value for it to be rendered without a marker: it is finite and
  acyclic, its objects are renderable, and none of them is in the visited set.
\<close>

lemma acyclic_unmarked:
  "acyclicValue h v \<Longrightarrow> \<forall>b \<in> reach h v. renderable (h b) \<Longrightarrow> dom (seen st) \<inter> reach h v = {} \<Longrightarrow>
     \<exists>s st'. format h fm v st = Inr (s, st') \<and> circularLog st' = circularLog st"
  "compositeOf (h a) = Some (wrapper, c) \<Longrightarrow> acyclicValue h (Object a) \<Longrightarrow>
   \<forall>b \<in> reach h (Object a). renderable (h b) \<Longrightarrow> dom (seen st) \<inter> reach h (Object a) = {} \<Longrightarrow>
     \<exists>s st'. formatObjectEntries h fm a wrapper c st = Inr (s, st') \<and> circularLog st' = circularLog st"
  "\<forall>x \<in> set (concat (map (itemVals \<circ> instanceofEntry h) items)).
      acyclicValue h x \<and> (\<forall>b \<in> reach h x. renderable (h b)) \<and> dom (seen st) \<inter> reach h x = {} \<Longrightarrow>
     \<exists>s st'. formatItems h fm items content st = Inr (s, st') \<and> circularLog st' = circularLog st"
proof (induction h fm v st and h fm a wrapper c st and h fm items content st rule: format_induct)
  case (scalar h fm v st)
  then show ?case using format_scalar[of v h fm st] by auto
next
  case (object h fm a st)
  show ?case
  proof (cases "compositeOf (h a)")
    case None
    from object.prems(2) have "renderable (h a)" by (simp add: reach_self)
    from renderable_line[of h a, OF this None] show ?thesis by blast
  next
    case (Some wc)
    obtain wrapper c where "wc = (wrapper, c)" by (cases wc)
    with Some object.IH[of wrapper c] object.prems show ?thesis
      by (simp add: format_composite)
  qed
next
  case (entries h fm a wrapper c st)
  from entries.prems(4) have unseen: "seen st a = None"
    using reach_self[of a h] by auto
  from entries.prems(3) have "renderable (h a)" by (simp add: reach_self)
  from renderable_name[OF this entries.prems(1)]
  obtain name where name: "getConstructorName (h a) = Inr name" ..
  show ?case
  proof (cases "hitMaxDepth fm")
    case True
    with unseen name show ?thesis by (simp add: entries_deep)
  next
    case False
    obtain seenId g where gen: "generateId a (circularIdGenerator st) = (seenId, g)"
      by (cases "generateId a (circularIdGenerator st)")
    from acyclic_Object[OF entries.prems(2)] composite_entries(3)[OF entries.prems(1)]
    obtain items where items: "c = Yields items" by blast
    let ?st0 = "st\<lparr>circularIdGenerator := g, seen := (seen st)(a \<mapsto> seenId)\<rparr>"
    have kids: "children h (h a) = concat (map (itemVals \<circ> instanceofEntry h) items)"
      using children_items[OF entries.prems(1), of h] items by simp
    have "\<forall>x \<in> set (concat (map (itemVals \<circ> instanceofEntry h) (yielded c))).
            acyclicValue h x \<and> (\<forall>b \<in> reach h x. renderable (h b)) \<and> dom (seen ?st0) \<inter> reach h x = {}"
    proof
      fix x assume x: "x \<in> set (concat (map (itemVals \<circ> instanceofEntry h) (yielded c)))"
      with kids items have xa: "x \<in> set (children h (h a))" by simp
      have sub: "reach h x \<subseteq> reach h (Object a)" using reach_child[where h = h and a = a, OF xa] by auto
      have 1: "acyclicValue h x" using acyclic_Object[OF entries.prems(2)] xa by blast
      have 2: "\<forall>b \<in> reach h x. renderable (h b)" using entries.prems(3) sub by blast
      have "a \<notin> reach h x"
        using acyclic_no_way_back[OF entries.prems(2)] reach_self[of a h] xa by blast
      with entries.prems(4) sub have 3: "dom (seen ?st0) \<inter> reach h x = {}" by auto
      from 1 2 3 show "acyclicValue h x \<and> (\<forall>b \<in> reach h x. renderable (h b)) \<and> dom (seen ?st0) \<inter> reach h x = {}"
        by blast
    qed
    from entries.IH[OF unseen name False gen this] items
    obtain content st1 where "formatItems h fm items [] ?st0 = Inr (content, st1)"
      and "circularLog st1 = circularLog ?st0" by auto
    with unseen name False gen items show ?thesis
      by (simp add: entries_expand)
  qed
next
  case (nil h fm content st)
  then show ?case by simp
next
  case (val h fm entry v items content st)
  from items_head(1)[OF val.prems val.hyps]
  have v: "acyclicValue h v" "\<forall>b \<in> reach h v. renderable (h b)" "dom (seen st) \<inter> reach h v = {}"
    by simp_all
  from val.IH(1)[OF v] obtain s1 st1 where
    1: "format h (getChildFormatter fm False) v st = Inr (s1, st1)" and l1: "circularLog st1 = circularLog st"
    by blast
  from format_advances(1)[OF 1] have s1: "seen st1 = seen st" by (simp add: advances_def)
  have "\<forall>x \<in> set (concat (map (itemVals \<circ> instanceofEntry h) items)).
      acyclicValue h x \<and> (\<forall>b \<in> reach h x. renderable (h b)) \<and> dom (seen st1) \<inter> reach h x = {}"
    unfolding s1 using val.prems by (rule items_tail)
  from val.IH(2)[OF 1 this] 1 l1 show ?case by (auto simp: items_value[OF val.hyps])
next
  case (entry h fm entry key "value" separator items content st)
  from items_head(2)[OF entry.prems entry.hyps]
  have k: "acyclicValue h key" "\<forall>b \<in> reach h key. renderable (h b)" "dom (seen st) \<inter> reach h key = {}"
    and v0: "acyclicValue h value" "\<forall>b \<in> reach h value. renderable (h b)"
      "dom (seen st) \<inter> reach h value = {}"
    by simp_all
  from entry.IH(1)[OF k] obtain ks st1 where
    1: "format h (getChildFormatter fm False) key st = Inr (ks, st1)" and l1: "circularLog st1 = circularLog st"
    by blast
  from format_advances(1)[OF 1] have s1: "seen st1 = seen st" by (simp add: advances_def)
  with v0 have v: "acyclicValue h value" "\<forall>b \<in> reach h value. renderable (h b)"
      "dom (seen st1) \<inter> reach h value = {}"
    by simp_all
  from entry.IH(2)[OF 1 v] obtain vs st2 where
    2: "format h (getChildFormatter fm True) value st1 = Inr (vs, st2)" and l2: "circularLog st2 = circularLog st1"
    by blast
  from format_advances(1)[OF 2] s1 have s2: "seen st2 = seen st" by (simp add: advances_def)
  have "\<forall>x \<in> set (concat (map (itemVals \<circ> instanceofEntry h) items)).
      acyclicValue h x \<and> (\<forall>b \<in> reach h x. renderable (h b)) \<and> dom (seen st2) \<inter> reach h x = {}"
    unfolding s2 using entry.prems by (rule items_tail)
  from entry.IH(3)[OF 1 2 this] 1 2 l1 l2 show ?case by (auto simp: items_entry[OF entry.hyps])
qed

text \<open>
  Claim C2.  Formatting a finite acyclic value whose objects are renderable, with an
  empty visited set, returns a string, and \<^verbatim>\<open>formatCircularRef\<close> is not called on the
  way: no part of the result is a circular-reference marker.  The value may contain
  another value any number of times.
\<close>

theorem acyclic_no_circular_marker:
  assumes "acyclicValue h v"
    and "\<forall>b \<in> reach h v. renderable (h b)"
    and "seen st = Map.empty"
  shows "\<exists>s st'. format h fm v st = Inr (s, st') \<and> circularLog st' = circularLog st"
  using assms by (intro acyclic_unmarked(1)) simp_all

theorem acyclic_no_circular_marker_witness:
  "acyclicValue sharedHeap (Object 0) \<and>
   (\<forall>b. renderable (sharedHeap b)) \<and>
   seen newState = Map.empty \<and>
   (\<exists>s st'. format sharedHeap (Formatter_new noOptions) (Object 0) newState = Inr (s, st') \<and>
      circularLog st' = circularLog newState)"
proof -
  have c1: "children sharedHeap (sharedHeap 1) = []" by code_simp
  have f1: "finiteContents (sharedHeap 1)" by code_simp
  have c0: "children sharedHeap (sharedHeap 0) = [StringV ''a'', Object 1, StringV ''b'', Object 1]"
    by code_simp
  have f0: "finiteContents (sharedHeap 0)" by code_simp
  have a1: "acyclicValue sharedHeap (Object 1)"
    using f1 c1 by (intro acyclicValue.object) simp_all
  have 1: "acyclicValue sharedHeap (Object 0)"
    using f0 c0 a1 by (intro acyclicValue.object) (auto intro: acyclicValue.scalar)
  have all: "renderable (sharedHeap b)" for b
    by (simp add: sharedHeap_def emptyObjects_def objectLiteral_def renderable_def)
  then have 2: "\<forall>b \<in> reach sharedHeap (Object 0). renderable (sharedHeap b)" by simp
  have 3: "seen newState = Map.empty" by (simp add: newState_def)
  from acyclic_no_circular_marker[OF 1 2 3, of "Formatter_new noOptions"] 1 all 3
  show ?thesis by simp
qed

section \<open>Where the engine returns\<close>

text \<open>
  On a heap all of whose objects are renderable and have finite contents, cyclic or
  not, every call returns a string.
\<close>

lemma format_returns:
  "\<forall>b. renderable (h b) \<and> finiteContents (h b) \<Longrightarrow> \<exists>s st'. format h fm v st = Inr (s, st')"
  "\<forall>b. renderable (h b) \<and> finiteContents (h b) \<Longrightarrow> compositeOf (h a) = Some (wrapper, c) \<Longrightarrow>
     \<exists>s st'. formatObjectEntries h fm a wrapper c st = Inr (s, st')"
  "\<forall>b. renderable (h b) \<and> finiteContents (h b) \<Longrightarrow>
     \<exists>s st'. formatItems h fm items content st = Inr (s, st')"
proof (induction h fm v st and h fm a wrapper c st and h fm items content st rule: format_induct)
  case (scalar h fm v st)
  then show ?case using format_scalar[of v h fm st] by auto
next
  case (object h fm a st)
  show ?case
  proof (cases "compositeOf (h a)")
    case None
    from object.prems have "renderable (h a)" by simp
    from renderable_line[of h a, OF this None] show ?thesis by blast
  next
    case (Some wc)
    obtain wrapper c where "wc = (wrapper, c)" by (cases wc)
    with Some object.IH[of wrapper c] object.prems show ?thesis
      by (simp add: format_composite)
  qed
next
  case (entries h fm a wrapper c st)
  show ?case
  proof (cases "seen st a")
    case (Some i)
    then show ?thesis by (simp add: entries_seen)
  next
    case None
    from entries.prems(1) have "renderable (h a)" by simp
    from renderable_name[OF this entries.prems(2)]
    obtain name where name: "getConstructorName (h a) = Inr name" ..
    show ?thesis
    proof (cases "hitMaxDepth fm")
      case True
      with None name show ?thesis by (simp add: entries_deep)
    next
      case False
      obtain seenId g where gen: "generateId a (circularIdGenerator st) = (seenId, g)"
        by (cases "generateId a (circularIdGenerator st)")
      from entries.prems(1) have "finiteContents (h a)" by simp
      with composite_entries(3)[OF entries.prems(2)] obtain items where items: "c = Yields items"
        by blast
      from entries.IH[OF None name False gen entries.prems(1)] items
      obtain content st1 where
        "formatItems h fm items [] (st\<lparr>circularIdGenerator := g, seen := (seen st)(a \<mapsto> seenId)\<rparr>)
           = Inr (content, st1)" by auto
      with None name False gen items show ?thesis by (simp add: entries_expand)
    qed
  qed
next
  case (nil h fm content st)
  then show ?case by simp
next
  case (val h fm entry v items content st)
  from val.IH(1)[OF val.prems] obtain s1 st1 where
    1: "format h (getChildFormatter fm False) v st = Inr (s1, st1)" by blast
  from val.IH(2)[OF 1 val.prems] 1 show ?case by (auto simp: items_value[OF val.hyps])
next
  case (entry h fm entry key "value" separator items content st)
  from entry.IH(1)[OF entry.prems] obtain k st1 where
    1: "format h (getChildFormatter fm False) key st = Inr (k, st1)" by blast
  from entry.IH(2)[OF 1 entry.prems] obtain v st2 where
    2: "format h (getChildFormatter fm True) value st1 = Inr (v, st2)" by blast
  from entry.IH(3)[OF 1 2 entry.prems] 1 2 show ?case by (auto simp: items_entry[OF entry.hyps])
qed

text \<open>
  Claim C4 fails on the code: formatting an object without a constructor, which is not
  renderable, throws a TypeError instead of falling back to the tag of the object.
\<close>

theorem constructorless_object_throws:
  "returned (format (emptyObjects(0 := nullPrototypeObject)) (Formatter_new noOptions) (Object 0)
      newState)
   = Inl TypeError"
  by code_simp


section \<open>The block of an expanded object\<close>


lemma lines_append:
  "entryLines h fm (xs @ ys) st =
     (case entryLines h fm xs st of
        Inl thrown \<Rightarrow> Inl thrown
      | Inr (c1, st1) \<Rightarrow>
          (case entryLines h fm ys st1 of
             Inl thrown \<Rightarrow> Inl thrown
           | Inr (c2, st2) \<Rightarrow> Inr (c1 @ c2, st2)))"
  by (induction xs arbitrary: st) (auto split: sum.splits)




section \<open>Objects on the path are not inspected\<close>






section \<open>Array-likes\<close>


text \<open>From the bound on, no index holds a property.\<close>

lemma digitValue_digit: "d < 10 \<Longrightarrow> digitValue (digit d) = Some d"
proof -
  assume "d < 10"
  then have "d \<in> {0, 1, 2, 3, 4, 5, 6, 7, 8, 9}" by auto
  then show ?thesis by (auto simp: digitValue_def digit_def)
qed

lemma numeralValue_snoc:
  "numeralValue (s @ [c]) =
     (case (numeralValue s, digitValue c) of (Some n, Some d) \<Rightarrow> Some (10 * n + d) | _ \<Rightarrow> None)"
  by (simp add: numeralValue_def)

lemma numeralValue_decimal: "numeralValue (decimal n) = Some n"
proof (induction n rule: decimal.induct)
  case (1 n)
  show ?case
  proof (cases "10 \<le> n")
    case True
    with 1 have "numeralValue (decimal (n div 10)) = Some (n div 10)" by simp
    with True show ?thesis
      by (subst decimal.simps) (simp add: numeralValue_snoc digitValue_digit)
  next
    case False
    then show ?thesis
      by (subst decimal.simps) (simp add: numeralValue_snoc digitValue_digit numeralValue_def)
  qed
qed

lemma fold_max_start: "b \<le> fold max xs (b::nat)"
  by (induction xs arbitrary: b) (auto intro: order_trans[OF max.cobounded2])

lemma fold_max_bound: "x \<in> set xs \<Longrightarrow> x \<le> fold max xs (b::nat)"
proof (induction xs arbitrary: b)
  case Nil
  then show ?case by simp
next
  case (Cons y ys)
  then show ?case using fold_max_start[of "max y b" ys] by auto
qed

lemma beyond_indexBound:
  assumes "indexBound ob \<le> i"
  shows "getIndex ob i = Undefined"
proof (cases "getProp ob (decimal i)")
  case None
  then show ?thesis by (simp add: getIndex_def)
next
  case (Some v)
  then have "decimal i \<in> fst ` set (ownKeys ob @ otherProps ob)"
    by (auto simp: getProp_def split: option.splits dest!: map_of_SomeD intro: rev_image_eqI)
  then obtain w where "(decimal i, w) \<in> set (ownKeys ob @ otherProps ob)"
    by (auto simp del: set_append)
  then have "Suc i \<in> set (map (\<lambda>(k, v). case indexOfKey k of Some n \<Rightarrow> Suc n | None \<Rightarrow> 0)
      (ownKeys ob @ otherProps ob))"
    by (force simp: indexOfKey_def numeralValue_decimal)
  from fold_max_bound[OF this, of 0] have "Suc i \<le> indexBound ob"
    by (simp add: indexBound_def)
  with assms show ?thesis by simp
qed





section \<open>Successive calls on one engine\<close>

lemma child_circularId [simp]:
  "circularId (options (getChildFormatter fm skipFirst)) = circularId (options fm)"
  by (simp add: getChildFormatter_def newFormatter_def mergeOptions_def allOptions_def)














section \<open>Ids are kept\<close>







section \<open>A value nested in itself\<close>



lemma child_marker [simp]:
  "circularMarker (getChildFormatter fm skipFirst) i = circularMarker fm i"
  "firstLineIndentation (getChildFormatter fm False) = childIndentation fm"
  "firstLineIndentation (getChildFormatter fm True) = []"
  by (simp_all add: circularMarker_def firstLineIndentation_def childIndentation_def
      getChildFormatter_def newFormatter_def mergeOptions_def allOptions_def)





lemma mergeOptions_allOptions [simp]: "mergeOptions d (allOptions opts) = opts"
  by (simp add: mergeOptions_def allOptions_def)





end
